theory Spec2Isabelle
  imports
    Complex_Main
    "HOL-Library.Char_ord"
    "HOL-Library.List_Lexorder"
    "HOL-Library.Sublist"
    "HOL-Library.Log_Nat"
begin

section \<open>Python values, strings and paths\<close>

text \<open>
  The events of \<^verbatim>\<open>app.py\<close> are Python dicts whose values are strings, integers,
  \<^verbatim>\<open>None\<close> or lists of strings. A dict is an association list in insertion order;
  \<^verbatim>\<open>ev.get(k)\<close> is \<open>map_of ev k\<close>.
\<close>

datatype atom = ANone | AStr string | AInt int

datatype pyval = Atom atom | Strs "string list"

type_synonym event = "(string \<times> pyval) list"

abbreviation Str :: "string \<Rightarrow> pyval" where
  "Str s \<equiv> Atom (AStr s)"

abbreviation Num :: "int \<Rightarrow> pyval" where
  "Num n \<equiv> Atom (AInt n)"

text \<open>Truth value of an object, as \<^verbatim>\<open>if x:\<close> and \<^verbatim>\<open>x or y\<close> test it.\<close>

fun truthy :: "atom \<Rightarrow> bool" where
  "truthy ANone = False"
| "truthy (AStr s) = (s \<noteq> [])"
| "truthy (AInt n) = (n \<noteq> 0)"

definition py_or :: "atom \<Rightarrow> atom \<Rightarrow> atom" where
  "py_or a b = (if truthy a then a else b)"

text \<open>Decimal digits of an integer, as an f-string prints it.\<close>

definition digit :: "nat \<Rightarrow> char" where
  "digit d = ''0123456789'' ! d"

fun str_nat :: "nat \<Rightarrow> string" where
  "str_nat n = (if n < 10 then [digit n] else str_nat (n div 10) @ [digit (n mod 10)])"

declare str_nat.simps [simp del]

definition str_int :: "int \<Rightarrow> string" where
  "str_int i = (if i < 0 then CHR ''-'' # str_nat (nat (- i)) else str_nat (nat i))"

fun py_str :: "atom \<Rightarrow> string" where
  "py_str ANone = ''None''"
| "py_str (AStr s) = s"
| "py_str (AInt n) = str_int n"

text \<open>\<^verbatim>\<open>sep.join(xs)\<close>\<close>

fun join :: "string \<Rightarrow> string list \<Rightarrow> string" where
  "join sep [] = []"
| "join sep [x] = x"
| "join sep (x # y # ys) = x @ sep @ join sep (y # ys)"

text \<open>
  \<^verbatim>\<open>str.strip()\<close> and \<^verbatim>\<open>str.lower()\<close> on ASCII text: the white space characters are
  TAB, LF, VT, FF, CR, FS, GS, RS, US and the blank.
\<close>

definition is_space :: "char \<Rightarrow> bool" where
  "is_space c = (c \<in> set [CHR 0x09, CHR 0x0A, CHR 0x0B, CHR 0x0C, CHR 0x0D,
                           CHR 0x1C, CHR 0x1D, CHR 0x1E, CHR 0x1F, CHR 0x20])"

definition strip :: "string \<Rightarrow> string" where
  "strip s = rev (dropWhile is_space (rev (dropWhile is_space s)))"

definition lower_char :: "char \<Rightarrow> char" where
  "lower_char c =
     (case map_of (zip ''ABCDEFGHIJKLMNOPQRSTUVWXYZ'' ''abcdefghijklmnopqrstuvwxyz'') c of
        Some d \<Rightarrow> d
      | None \<Rightarrow> c)"

definition lower :: "string \<Rightarrow> string" where
  "lower s = map lower_char s"

text \<open>
  \<^verbatim>\<open>str.rfind(c)\<close>: the index of the last occurrence, or \<open>-1\<close>.
\<close>

definition rfind :: "char \<Rightarrow> string \<Rightarrow> int" where
  "rfind c s =
     (if c \<in> set s then int (length s) - 1 - int (length (takeWhile (\<lambda>x. x \<noteq> c) (rev s)))
      else - 1)"

text \<open>
  \<^verbatim>\<open>pathlib\<close> on the final component of a path: \<^verbatim>\<open>suffix\<close>, \<^verbatim>\<open>stem\<close> and
  \<^verbatim>\<open>with_suffix\<close>. A leading dot and a trailing dot do not start a suffix.
  \<^verbatim>\<open>with_suffix\<close> raises ValueError on an empty name; every caller passes the name of a
  directory entry or a name ending in a fixed extension, so the name is never empty.
\<close>

definition suffix_of :: "string \<Rightarrow> string" where
  "suffix_of name =
     (let i = rfind CHR ''.'' name in
      if 0 < i \<and> i < int (length name) - 1 then drop (nat i) name else [])"

definition stem_of :: "string \<Rightarrow> string" where
  "stem_of name =
     (let i = rfind CHR ''.'' name in
      if 0 < i \<and> i < int (length name) - 1 then take (nat i) name else name)"

definition with_suffix :: "string \<Rightarrow> string \<Rightarrow> string" where
  "with_suffix name s =
     (let old_suffix = suffix_of name in
      if old_suffix = [] then name @ s
      else take (length name - length old_suffix) name @ s)"

text \<open>\<^verbatim>\<open>a / b\<close> on POSIX paths, read through \<^verbatim>\<open>str\<close>.\<close>

definition pjoin :: "string \<Rightarrow> string \<Rightarrow> string" where
  "pjoin a b = a @ ''/'' @ b"

section \<open>Binary64 arithmetic\<close>

text \<open>
  A finite Python float is the rational it denotes. \<open>fl\<close> rounds a rational to the
  nearest number with a 53-bit significand, ties to even, which is what true division of
  two ints, a float product and a float sum return. The exponent range is unbounded here;
  it agrees with binary64 between \<open>2 powi (-1022)\<close> and \<open>2 powi 1024\<close>, which covers
  every quotient of two file counts.
\<close>

definition round_half_even :: "rat \<Rightarrow> int" where
  "round_half_even q =
     (let f = \<lfloor>q\<rfloor>; r = q - of_int f in
      if r < 1 / 2 then f else if 1 / 2 < r then f + 1 else if even f then f else f + 1)"

definition ilog2 :: "rat \<Rightarrow> int" where
  "ilog2 x =
     (let (a, b) = quotient_of x; e = bitlen a - bitlen b in
      if 2 powi e \<le> x then e else e - 1)"

definition fl :: "rat \<Rightarrow> rat" where
  "fl x =
     (if x = 0 then 0
      else let e = ilog2 \<bar>x\<bar> - 52
           in sgn x * of_int (round_half_even (\<bar>x\<bar> / 2 powi e)) * 2 powi e)"

text \<open>\<^verbatim>\<open>int(x)\<close> truncates towards zero.\<close>

definition py_int :: "rat \<Rightarrow> int" where
  "py_int x = (if 0 \<le> x then \<lfloor>x\<rfloor> else \<lceil>x\<rceil>)"

section \<open>preprocessing.py\<close>

subsection \<open>Image files and \<^verbatim>\<open>load_image\<close>\<close>

text \<open>
  Pixel values are not modelled. A PIL image is its band count, its size and the rotation
  applied so far; an image file is what the PIL calls of \<^verbatim>\<open>load_image\<close> do on it:
  \<^verbatim>\<open>Image.open\<close> raises or returns an image, \<^verbatim>\<open>_getexif()\<close> raises, returns
  \<^verbatim>\<open>None\<close> or returns a dict (of which only the Orientation entry is read), and
  \<^verbatim>\<open>rotate\<close> may raise. An exception is the string \<^verbatim>\<open>str(e)\<close>.
\<close>

record pil_image =
  bands :: nat
  width :: nat
  height :: nat
  angle :: nat

datatype exif_data = Exif_error string | Exif_none | Exif_tags "int option"

record image_file =
  opened :: "string + pil_image"
  exif :: exif_data
  rotate_fault :: "string option"

text \<open>\<^verbatim>\<open>img.rotate(a, expand=True)\<close> for a multiple of 90 degrees.\<close>

definition rotate_image :: "image_file \<Rightarrow> nat \<Rightarrow> pil_image \<Rightarrow> string + pil_image" where
  "rotate_image f a img =
     (case rotate_fault f of
        Some e \<Rightarrow> Inl e
      | None \<Rightarrow>
          Inr (img\<lparr>angle := (angle img + a) mod 360,
                   width := (if a = 180 then width img else height img),
                   height := (if a = 180 then height img else width img)\<rparr>))"

text \<open>The body of the \<^verbatim>\<open>try\<close> block: \<open>Inl\<close> is an exception raised inside it.\<close>

definition apply_orientation :: "image_file \<Rightarrow> pil_image \<Rightarrow> string + pil_image" where
  "apply_orientation f img =
     (case exif f of
        Exif_error e \<Rightarrow> Inl e
      | Exif_none \<Rightarrow> Inr img
      | Exif_tags orient \<Rightarrow>
          if orient = Some 3 then rotate_image f 180 img
          else if orient = Some 6 then rotate_image f 270 img
          else if orient = Some 8 then rotate_image f 90 img
          else Inr img)"

text \<open>
  An OpenCV array is its shape: rows, columns and the number of dimensions (2 for a
  single-channel array, 3 for a colour array).
  \<^verbatim>\<open>cv2.cvtColor(np.array(img), cv2.COLOR_RGB2BGR)\<close> accepts three or four channels and
  returns three; on any other array OpenCV raises.
\<close>

record array =
  rows :: nat
  cols :: nat
  ndim :: nat

definition to_bgr :: "pil_image \<Rightarrow> string + array" where
  "to_bgr img =
     (if bands img = 3 \<or> bands img = 4
      then Inr \<lparr>rows = height img, cols = width img, ndim = 3\<rparr>
      else Inl ''Invalid number of channels in input image'')"

definition load_image :: "image_file \<Rightarrow> string + array" where
  "load_image f =
     (case opened f of
        Inl e \<Rightarrow> Inl e
      | Inr img \<Rightarrow>
          to_bgr (case apply_orientation f img of Inl e \<Rightarrow> img | Inr img' \<Rightarrow> img'))"

subsection \<open>\<^verbatim>\<open>save_image\<close>\<close>

text \<open>
  A call of \<^verbatim>\<open>cv2.imwrite\<close>: the folder and the file name written, the encoder
  parameters and the shape written. OpenCV picks the encoder from the extension of the
  file name.
\<close>

record imwrite =
  wr_folder :: string
  wr_file :: string
  wr_params :: "(string \<times> nat) list"
  wr_ndim :: nat

datatype codec = PNG | JPEG | Other_codec

definition codec_of :: "string \<Rightarrow> codec" where
  "codec_of name =
     (let ext = lower (suffix_of name) in
      if ext = ''.png'' then PNG
      else if ext \<in> set [''.jpg'', ''.jpeg'', ''.jpe''] then JPEG
      else Other_codec)"

definition save_image :: "string \<Rightarrow> string \<Rightarrow> array \<Rightarrow> imwrite" where
  "save_image folder name img =
     (let ext = lower (suffix_of name) in
      if ndim img = 2 then
        \<lparr>wr_folder = folder,
         wr_file = (if ext \<notin> set [''.png''] then with_suffix name ''.png'' else name),
         wr_params = [],
         wr_ndim = ndim img\<rparr>
      else
        \<lparr>wr_folder = folder,
         wr_file = (if ext \<notin> set [''.jpg'', ''.jpeg''] then with_suffix name ''.jpg'' else name),
         wr_params = [(''IMWRITE_JPEG_QUALITY'', 95)],
         wr_ndim = ndim img\<rparr>)"

definition wr_path :: "imwrite \<Rightarrow> string" where
  "wr_path w = pjoin (wr_folder w) (wr_file w)"

subsection \<open>\<^verbatim>\<open>preprocess_and_save_all_stages\<close>\<close>

text \<open>
  The downscaling step: \<^verbatim>\<open>scale = max_size / float(max(h, w))\<close> and the new size
  \<^verbatim>\<open>(int(w * scale), int(h * scale))\<close>; \<^verbatim>\<open>cv2.resize\<close> raises on an empty size.
\<close>

definition resize_to :: "nat \<Rightarrow> array \<Rightarrow> string + array" where
  "resize_to max_size img =
     (let h = rows img; w = cols img in
      if max h w > max_size then
        let scale = fl (of_nat max_size / of_nat (max h w));
            w' = nat (py_int (fl (of_nat w * scale)));
            h' = nat (py_int (fl (of_nat h * scale)))
        in if w' = 0 \<or> h' = 0 then Inl ''resize: empty destination size''
           else Inr (img\<lparr>rows := h', cols := w'\<rparr>)
      else Inr img)"

text \<open>
  The filters keep the size. The colour conversions back to BGR return a three-dimensional
  array; the grayscale conversion, Canny, the median blur and the morphology return a
  two-dimensional one. The OpenCV filters and the writes are taken to succeed on a decoded
  image; the result lists the seven writes in the order of the source.
\<close>

definition colour :: "array \<Rightarrow> array" where
  "colour img = img\<lparr>ndim := 3\<rparr>"

definition single_channel :: "array \<Rightarrow> array" where
  "single_channel img = img\<lparr>ndim := 2\<rparr>"

definition preprocess_and_save_all_stages ::
    "image_file \<Rightarrow> string \<Rightarrow> string \<Rightarrow> nat \<Rightarrow> string + imwrite list" where
  "preprocess_and_save_all_stages f in_name out_root max_size =
     (case load_image f of
        Inl e \<Rightarrow> Inl e
      | Inr img0 \<Rightarrow>
          (case resize_to max_size img0 of
             Inl e \<Rightarrow> Inl e
           | Inr img \<Rightarrow>
               let name = in_name;
                   stem = stem_of in_name;
                   img_eq = colour img;
                   img_blur = colour img;
                   img_sharp = colour img;
                   gray = single_channel img_sharp;
                   edges = gray;
                   median = gray;
                   morph_clean = median;
                   final_bgr = colour img
               in Inr [save_image (pjoin out_root ''histogram_equalized'') name img_eq,
                       save_image (pjoin out_root ''gaussian_blur'') name img_blur,
                       save_image (pjoin out_root ''sharpened'') name img_sharp,
                       save_image (pjoin out_root ''edges'') (stem @ ''_edges.png'') edges,
                       save_image (pjoin out_root ''median_filtered'') (stem @ ''_median.png'') median,
                       save_image (pjoin out_root ''morphology'') (stem @ ''_morph.png'') morph_clean,
                       save_image (pjoin out_root ''final_processed'') name final_bgr]))"

section \<open>app.py\<close>

subsection \<open>Configuration\<close>

definition COLMAP_EXEC :: string where
  "COLMAP_EXEC = ''colmap''"

definition PREPROCESS_STAGES :: "(string \<times> string) list" where
  "PREPROCESS_STAGES =
     [(''Original Image'', ''images''),
      (''Histogram Equalized'', ''histogram_equalized''),
      (''Gaussian Blur'', ''gaussian_blur''),
      (''Sharpened'', ''sharpened''),
      (''Edges (Canny)'', ''edges''),
      (''Median Filtered'', ''median_filtered''),
      (''Morphological Cleaned'', ''morphology''),
      (''Final Processed'', ''final_processed'')]"

definition COLMAP_STAGES :: "string list" where
  "COLMAP_STAGES =
     [''Feature Extraction'', ''Matching'', ''Sparse Mapping'', ''Model Conversion'',
      ''Undistortion'', ''Dense & Fusion'']"

subsection \<open>What a run observes\<close>

text \<open>
  An external process is what the read loop of \<^verbatim>\<open>run_cmd\<close> observes of it: the
  successive results of \<^verbatim>\<open>readline()\<close>, each with the answer \<^verbatim>\<open>poll()\<close> would give at
  that moment (\<open>True\<close>: the process has exited), and the exit code \<^verbatim>\<open>wait()\<close> returns.
  After the listed reads, \<^verbatim>\<open>readline()\<close> returns the empty string and the process has
  exited. The process is taken to start and to end.
\<close>

record process =
  reads :: "(string \<times> bool) list"
  returncode :: int

text \<open>
  A directory entry of the sparse-model root, in the order \<^verbatim>\<open>iterdir()\<close> yields it, with
  what \<^verbatim>\<open>is_dir()\<close> and \<^verbatim>\<open>exists()\<close> say of it.
\<close>

datatype kind = Dir | File | Dangling

text \<open>
  The world of one run: the run identifier and the base directory, the entries of the
  images directory in \<^verbatim>\<open>iterdir()\<close> order with their contents, and the answers of the
  file system and of the external tool at each place the generator asks: the listing of
  each stage folder when thumbnails are collected (\<open>None\<close>: the folder does not exist),
  the listing of \<^verbatim>\<open>out/final_processed\<close> when the reconstruction starts, the seven
  external processes, the entries of \<^verbatim>\<open>out/sparse\<close> after the mapper, and whether
  \<^verbatim>\<open>out/dense/fused.ply\<close> exists after the fusion. Removing and creating the scratch
  directories is taken to succeed and is not recorded.
\<close>

record world =
  run_id :: string
  base_dir :: string
  images_dir :: "(string \<times> image_file) list"
  stage_listing :: "string \<Rightarrow> string list option"
  final_processed_dir :: "string list option"
  feature_extractor :: process
  exhaustive_matcher :: process
  mapper :: process
  sparse_listing :: "(string \<times> kind) list"
  model_converter :: process
  image_undistorter :: process
  patch_match_stereo :: process
  stereo_fusion :: process
  fused_ply_exists :: bool

definition run_dir :: "world \<Rightarrow> string" where
  "run_dir w = pjoin (pjoin (base_dir w) ''runs'') (run_id w)"

definition out_root :: "world \<Rightarrow> string" where
  "out_root w = pjoin (run_dir w) ''out''"

definition db_dir :: "world \<Rightarrow> string" where
  "db_dir w = pjoin (out_root w) ''database''"

definition sparse_dir :: "world \<Rightarrow> string" where
  "sparse_dir w = pjoin (out_root w) ''sparse''"

definition dense_dir :: "world \<Rightarrow> string" where
  "dense_dir w = pjoin (out_root w) ''dense''"

definition image_path_for_colmap :: "world \<Rightarrow> string" where
  "image_path_for_colmap w = pjoin (out_root w) ''final_processed''"

text \<open>
  What a consumer of the generator sees, in order: the events yielded and the external
  commands started.
\<close>

datatype obs = Yield event | Popen "string list"

fun events :: "obs list \<Rightarrow> event list" where
  "events [] = []"
| "events (Yield ev # t) = ev # events t"
| "events (Popen cmd # t) = events t"

fun commands :: "obs list \<Rightarrow> string list list" where
  "commands [] = []"
| "commands (Yield ev # t) = commands t"
| "commands (Popen cmd # t) = cmd # commands t"

subsection \<open>\<^verbatim>\<open>run_cmd\<close>\<close>

text \<open>The \<^verbatim>\<open>while True\<close> loop over the output of the process.\<close>

fun read_loop :: "atom \<Rightarrow> (string \<times> bool) list \<Rightarrow> obs list" where
  "read_loop progress_start [] = []"
| "read_loop progress_start ((line, exited) # rest) =
     (if line = [] \<and> exited then []
      else (if line \<noteq> []
            then [Yield [(''type'', Str ''log''), (''message'', Str (strip line)),
                         (''progress'', Atom progress_start)]]
            else [])
           @ read_loop progress_start rest)"

text \<open>
  The generator \<^verbatim>\<open>run_cmd\<close>: what it yields and starts, and the value it returns.
\<close>

definition run_cmd :: "string list \<Rightarrow> atom \<Rightarrow> atom \<Rightarrow> atom \<Rightarrow> process \<Rightarrow> obs list \<times> bool" where
  "run_cmd cmd progress_start progress_end colmap_stage_name proc =
     (let started =
            [Yield [(''type'', Str ''status''),
                    (''message'', Str (''Running: '' @ join '' '' cmd)),
                    (''progress'', Atom progress_start)],
             Popen cmd]
            @ read_loop progress_start (reads proc);
          rc = returncode proc
      in if rc \<noteq> 0 then
           (started @
            [Yield [(''type'', Str ''error''),
                    (''message'', Str (''Command '' @ join '' '' cmd @ '' exited with code '' @ str_int rc)),
                    (''progress'', Atom progress_start)]],
            False)
         else
           (started @
            (if truthy colmap_stage_name
             then [Yield [(''type'', Str ''stage_done''), (''group'', Str ''colmap''),
                          (''stage_name'', Atom colmap_stage_name),
                          (''progress'', Atom progress_end)]]
             else []) @
            [Yield [(''type'', Str ''status''),
                    (''message'', Str (py_str (py_or colmap_stage_name (AStr ''command'')) @ '' finished'')),
                    (''progress'', Atom progress_end)]],
            True))"

subsection \<open>Forwarding the events of a command\<close>

text \<open>
  \<^verbatim>\<open>for ev in run_cmd(...): yield ev; if stop(ev): return\<close>. The second component tells
  whether the enclosing generator returned.
\<close>

fun relay :: "(event \<Rightarrow> bool) \<Rightarrow> obs list \<Rightarrow> obs list \<times> bool" where
  "relay stop [] = ([], False)"
| "relay stop (Popen cmd # rest) = (let (out, returned) = relay stop rest in (Popen cmd # out, returned))"
| "relay stop (Yield ev # rest) =
     (if stop ev then ([Yield ev], True)
      else let (out, returned) = relay stop rest in (Yield ev # out, returned))"

text \<open>\<^verbatim>\<open>ev.get("type") == "error"\<close>\<close>

definition type_is_error :: "event \<Rightarrow> bool" where
  "type_is_error ev = (map_of ev ''type'' = Some (Str ''error''))"

text \<open>
  \<^verbatim>\<open>ev.get("stage","").startswith("error")\<close>. No event of \<^verbatim>\<open>run_cmd\<close> has the key, so
  the value tested is the default; a value that is not a string would raise.
\<close>

definition stage_startswith_error :: "event \<Rightarrow> bool" where
  "stage_startswith_error ev =
     (case map_of ev ''stage'' of
        None \<Rightarrow> prefix ''error'' []
      | Some (Atom (AStr s)) \<Rightarrow> prefix ''error'' s
      | Some _ \<Rightarrow> False)"

text \<open>What follows a part of the generator that may have returned.\<close>

definition and_then :: "obs list \<times> bool \<Rightarrow> obs list \<Rightarrow> obs list" where
  "and_then part rest = (if snd part then fst part else fst part @ rest)"

subsection \<open>The commands\<close>

definition fe_cmd :: "world \<Rightarrow> string list" where
  "fe_cmd w =
     [COLMAP_EXEC, ''feature_extractor'', ''--database_path'', pjoin (db_dir w) ''database.db'',
      ''--image_path'', image_path_for_colmap w]"

definition em_cmd :: "world \<Rightarrow> string list" where
  "em_cmd w =
     [COLMAP_EXEC, ''exhaustive_matcher'', ''--database_path'', pjoin (db_dir w) ''database.db'']"

definition map_cmd :: "world \<Rightarrow> string list" where
  "map_cmd w =
     [COLMAP_EXEC, ''mapper'', ''--database_path'', pjoin (db_dir w) ''database.db'',
      ''--image_path'', image_path_for_colmap w, ''--output_path'', sparse_dir w]"

definition converter_cmd :: "world \<Rightarrow> string \<Rightarrow> string list" where
  "converter_cmd w model_index =
     [COLMAP_EXEC, ''model_converter'', ''--input_path'', pjoin (sparse_dir w) model_index,
      ''--output_path'', pjoin (sparse_dir w) ''0_txt'', ''--output_type'', ''TXT'']"

definition undist_cmd :: "world \<Rightarrow> string \<Rightarrow> string list" where
  "undist_cmd w model_index =
     [COLMAP_EXEC, ''image_undistorter'', ''--image_path'', image_path_for_colmap w,
      ''--input_path'', pjoin (sparse_dir w) model_index, ''--output_path'', dense_dir w,
      ''--output_type'', ''COLMAP'']"

definition pm_cmd :: "world \<Rightarrow> string list" where
  "pm_cmd w =
     [COLMAP_EXEC, ''patch_match_stereo'', ''--workspace_path'', dense_dir w,
      ''--workspace_format'', ''COLMAP'', ''--PatchMatchStereo.max_image_size'', ''1600'',
      ''--PatchMatchStereo.num_iterations'', ''3'', ''--PatchMatchStereo.num_samples'', ''10'',
      ''--PatchMatchStereo.geom_consistency'', ''true'']"

definition fuse_cmd :: "world \<Rightarrow> string list" where
  "fuse_cmd w =
     [COLMAP_EXEC, ''stereo_fusion'', ''--workspace_path'', dense_dir w,
      ''--workspace_format'', ''COLMAP'', ''--input_type'', ''geometric'',
      ''--output_path'', pjoin (dense_dir w) ''fused.ply'']"

subsection \<open>\<^verbatim>\<open>process_generator\<close>\<close>

text \<open>
  The steps are defined last to first, each with the rest of the generator after it.
  Step 7, \<^verbatim>\<open>stereo_fusion\<close>, and the check of \<^verbatim>\<open>fused.ply\<close>.
\<close>

definition step7_stereo_fusion :: "world \<Rightarrow> obs list" where
  "step7_stereo_fusion w =
     and_then
       (relay type_is_error
          (fst (run_cmd (fuse_cmd w) (AInt 85) (AInt 95) (AStr ''Fusion (dense)'') (stereo_fusion w))))
       (if fused_ply_exists w then
          [Yield [(''type'', Str ''done''), (''message'', Str ''Reconstruction complete''),
                  (''progress'', Num 100),
                  (''fused_ply'', Str (''/runs/'' @ run_id w @ ''/out/dense/fused.ply''))]]
        else
          [Yield [(''type'', Str ''error''), (''message'', Str ''fused.ply not found after fusion''),
                  (''progress'', Num 95)]])"

text \<open>Step 6, \<^verbatim>\<open>patch_match_stereo\<close>.\<close>

definition step6_patch_match_stereo :: "world \<Rightarrow> obs list" where
  "step6_patch_match_stereo w =
     and_then
       (relay type_is_error
          (fst (run_cmd (pm_cmd w) (AInt 65) (AInt 85) (AStr (COLMAP_STAGES ! 5)) (patch_match_stereo w))))
       (step7_stereo_fusion w)"

text \<open>Step 5, \<^verbatim>\<open>image_undistorter\<close>.\<close>

definition step5_image_undistorter :: "world \<Rightarrow> string \<Rightarrow> obs list" where
  "step5_image_undistorter w model_index =
     and_then
       (relay type_is_error
          (fst (run_cmd (undist_cmd w model_index) (AInt 58) (AInt 65) (AStr (COLMAP_STAGES ! 4))
                  (image_undistorter w))))
       (step6_patch_match_stereo w)"

text \<open>
  The call \<^verbatim>\<open>run_cmd(converter_cmd, "model_converter", 55, 58)\<close> and its loop, which
  tests the key \<^verbatim>\<open>"stage"\<close>. The arguments are positional: the string is
  \<^verbatim>\<open>progress_start\<close>, 55 is \<^verbatim>\<open>progress_end\<close> and 58 is \<^verbatim>\<open>colmap_stage_name\<close>.
\<close>

definition run_model_converter :: "world \<Rightarrow> string \<Rightarrow> obs list" where
  "run_model_converter w model_index =
     and_then
       (relay stage_startswith_error
          (fst (run_cmd (converter_cmd w model_index) (AStr ''model_converter'') (AInt 55) (AInt 58)
                  (model_converter w))))
       (step5_image_undistorter w model_index)"

text \<open>
  \<^verbatim>\<open>p.is_dir()\<close> and \<^verbatim>\<open>(sparse_dir / name).exists()\<close> on the entries of the sparse-model
  root. A model index is the name of an entry of that root.
\<close>

definition is_dir :: "string \<times> kind \<Rightarrow> bool" where
  "is_dir p = (snd p = Dir)"

definition path_exists :: "(string \<times> kind) list \<Rightarrow> string \<Rightarrow> bool" where
  "path_exists listing name = list_ex (\<lambda>p. fst p = name \<and> snd p \<noteq> Dangling) listing"

text \<open>Step 4: the second search for the model, then the converter.\<close>

definition step4_model_converter :: "world \<Rightarrow> obs list" where
  "step4_model_converter w =
     (let top_models = sparse_listing w;
          fallback =
            (if \<not> path_exists top_models ''0'' then
               [Yield [(''stage'', Str ''error''), (''message'', Str ''No sparse model found after mapper''),
                       (''progress'', Num 55)]]
             else run_model_converter w ''0'')
      in case find is_dir top_models of
           None \<Rightarrow> fallback
         | Some sub \<Rightarrow>
             if \<not> path_exists top_models (fst sub) then fallback
             else run_model_converter w (fst sub))"

text \<open>The first search for the model ("0 or first directory").\<close>

definition find_model_index :: "world \<Rightarrow> obs list" where
  "find_model_index w =
     (let top_models = filter is_dir (sparse_listing w);
          model_index = (case top_models of [] \<Rightarrow> ''0'' | p # rest \<Rightarrow> fst p)
      in if \<not> path_exists (sparse_listing w) model_index then
           [Yield [(''type'', Str ''error''), (''message'', Str ''No sparse model found after mapper''),
                   (''progress'', Num 55)]]
         else step4_model_converter w)"

text \<open>Steps 3, 2 and 1: the mapper, the matcher and the feature extractor.\<close>

definition step3_mapper :: "world \<Rightarrow> obs list" where
  "step3_mapper w =
     and_then
       (relay type_is_error
          (fst (run_cmd (map_cmd w) (AInt 40) (AInt 55) (AStr (COLMAP_STAGES ! 2)) (mapper w))))
       (find_model_index w)"

definition step2_matching :: "world \<Rightarrow> obs list" where
  "step2_matching w =
     and_then
       (relay type_is_error
          (fst (run_cmd (em_cmd w) (AInt 30) (AInt 40) (AStr (COLMAP_STAGES ! 1)) (exhaustive_matcher w))))
       (step3_mapper w)"

definition step1_features :: "world \<Rightarrow> obs list" where
  "step1_features w =
     and_then
       (relay type_is_error
          (fst (run_cmd (fe_cmd w) (AInt 22) (AInt 30) (AStr (COLMAP_STAGES ! 0)) (feature_extractor w))))
       (step2_matching w)"

text \<open>Preparing the workspace and the check of \<^verbatim>\<open>out/final_processed\<close>.\<close>

definition prepare_workspace :: "world \<Rightarrow> obs list" where
  "prepare_workspace w =
     Yield [(''type'', Str ''status''), (''message'', Str ''Preparing COLMAP workspace...''),
            (''progress'', Num 22)] #
     (if final_processed_dir w = None then
        [Yield [(''type'', Str ''error''), (''message'', Str ''final_processed folder missing''),
                (''progress'', Num 0)]]
      else step1_features w)"

text \<open>The thumbnails of a stage folder and the events of the eight stages.\<close>

definition thumbs :: "world \<Rightarrow> string \<Rightarrow> string list" where
  "thumbs w folder =
     (case stage_listing w folder of
        None \<Rightarrow> []
      | Some names \<Rightarrow>
          map (\<lambda>p. if folder = ''images'' then ''/runs/'' @ run_id w @ ''/images/'' @ p
                   else ''/runs/'' @ run_id w @ ''/out/'' @ folder @ ''/'' @ p)
              (take 200 (sort names)))"

definition stage_events :: "world \<Rightarrow> obs list" where
  "stage_events w =
     map (\<lambda>(label, folder).
            Yield [(''type'', Str ''stage_done''), (''group'', Str ''preprocessing''),
                   (''stage_name'', Str label), (''stage_key'', Str folder),
                   (''progress'', Num 20), (''thumbs'', Strs (thumbs w folder))])
         PREPROCESS_STAGES"

text \<open>
  The loop over the images, \<open>i\<close> counting from 1. The second component tells whether the
  generator returned from inside the loop.
\<close>

fun preprocess_loop :: "world \<Rightarrow> nat \<Rightarrow> nat \<Rightarrow> (string \<times> image_file) list \<Rightarrow> obs list \<times> bool" where
  "preprocess_loop w total_images i [] = ([], False)"
| "preprocess_loop w total_images i ((name, f) # rest) =
     (case preprocess_and_save_all_stages f name (out_root w) 2048 of
        Inr written \<Rightarrow>
          (let (out, returned) = preprocess_loop w total_images (Suc i) rest
           in (Yield [(''type'', Str ''preprocess_image''),
                      (''message'', Str (''Preprocessed '' @ name @ '' ('' @ str_nat i @ ''/''
                                          @ str_nat total_images @ '')'')),
                      (''progress'', Num (py_int (fl (2 + fl (18 * fl (of_nat i / of_nat total_images)))))),
                      (''image'', Str (''/runs/'' @ run_id w @ ''/out/final_processed/'' @ name))]
               # out, returned))
      | Inl e \<Rightarrow>
          ([Yield [(''type'', Str ''error''), (''message'', Str (''Preprocessing failed: '' @ e)),
                   (''progress'', Num 0)]],
           True))"

text \<open>The image files of the run, sorted by name.\<close>

definition is_image_name :: "string \<Rightarrow> bool" where
  "is_image_name name = (lower (suffix_of name) \<in> set [''.jpg'', ''.jpeg'', ''.png''])"

definition image_paths :: "world \<Rightarrow> (string \<times> image_file) list" where
  "image_paths w = sort_key fst (filter (\<lambda>p. is_image_name (fst p)) (images_dir w))"

definition process_generator :: "world \<Rightarrow> obs list" where
  "process_generator w =
     [Yield [(''type'', Str ''status''), (''message'', Str ''Run queued''), (''progress'', Num 0)],
      Yield [(''type'', Str ''status''), (''message'', Str ''Starting preprocessing...''),
             (''progress'', Num 2)]] @
     (let total_images = length (image_paths w)
      in if total_images = 0 then
           [Yield [(''type'', Str ''error''), (''message'', Str ''No images found''),
                   (''progress'', Num 0)]]
         else
           and_then (preprocess_loop w total_images 1 (image_paths w))
             (Yield [(''type'', Str ''status''), (''message'', Str ''Preprocessing complete''),
                     (''progress'', Num 20)] #
              stage_events w @ prepare_workspace w))"

section \<open>Notions used in the statements\<close>

text \<open>
  The output lines \<^verbatim>\<open>run_cmd\<close> captures: the non-empty results of \<^verbatim>\<open>readline()\<close> up to
  the first empty read made after the process has exited.
\<close>

definition captured_lines :: "(string \<times> bool) list \<Rightarrow> string list" where
  "captured_lines rs =
     filter (\<lambda>l. l \<noteq> [])
       (map fst (takeWhile (\<lambda>(line, exited). \<not> (line = [] \<and> exited)) rs))"

text \<open>
  The file name of a colour stage: the name of the input, with the extension replaced by
  \<^verbatim>\<open>.jpg\<close> unless it is a JPEG extension already.
\<close>

definition jpeg_name :: "string \<Rightarrow> string" where
  "jpeg_name name =
     (if lower (suffix_of name) \<in> set [''.jpg'', ''.jpeg''] then name
      else with_suffix name ''.jpg'')"

text \<open>A terminal event is a success event or an error event.\<close>

definition is_terminal :: "event \<Rightarrow> bool" where
  "is_terminal ev =
     (map_of ev ''type'' = Some (Str ''done'') \<or> map_of ev ''type'' = Some (Str ''error''))"

text \<open>The progress of an event when it is a number.\<close>

definition numeric_progress :: "event \<Rightarrow> int option" where
  "numeric_progress ev =
     (case map_of ev ''progress'' of Some (Atom (AInt n)) \<Rightarrow> Some n | _ \<Rightarrow> None)"

text \<open>An error event that carries progress 0.\<close>

definition zero_error :: "event \<Rightarrow> bool" where
  "zero_error ev = (type_is_error ev \<and> map_of ev ''progress'' = Some (Num 0))"

text \<open>
  The numeric progress values of a stream in order, and the same with the error events
  of progress 0 left out.
\<close>

definition progress_values :: "event list \<Rightarrow> int list" where
  "progress_values evs = List.map_filter numeric_progress evs"

definition progress_track :: "event list \<Rightarrow> int list" where
  "progress_track evs = progress_values (filter (\<lambda>ev. \<not> zero_error ev) evs)"

text \<open>Whether preprocessing raises on an image of the run.\<close>

definition preprocess_fails :: "world \<Rightarrow> string \<times> image_file \<Rightarrow> bool" where
  "preprocess_fails w p = isl (preprocess_and_save_all_stages (snd p) (fst p) (out_root w) 2048)"

text \<open>
  The file the route \<^verbatim>\<open>/runs/<run_id>/out/<path:filename>\<close> serves for a reference:
  \<^verbatim>\<open>WORK_DIR / run_id / "out" / filename\<close>.
\<close>

definition serve_run_out :: "world \<Rightarrow> string \<Rightarrow> string option" where
  "serve_run_out w url =
     (let route = ''/runs/'' @ run_id w @ ''/out/''
      in if prefix route url then Some (pjoin (out_root w) (drop (length route) url)) else None)"

text \<open>
  The progress of the \<open>i\<close>-th image event of \<open>total_images\<close>:
  \<^verbatim>\<open>int(2 + 18 * (i / total_images))\<close>.
\<close>

definition progress_of :: "nat \<Rightarrow> nat \<Rightarrow> int" where
  "progress_of i total_images = py_int (fl (2 + fl (18 * fl (of_nat i / of_nat total_images))))"

text \<open>What \<^verbatim>\<open>run_cmd\<close> yields and starts before the process has ended.\<close>

definition started :: "string list \<Rightarrow> atom \<Rightarrow> process \<Rightarrow> obs list" where
  "started cmd ps proc =
     [Yield [(''type'', Str ''status''), (''message'', Str (''Running: '' @ join '' '' cmd)),
             (''progress'', Atom ps)],
      Popen cmd] @ read_loop ps (reads proc)"

section \<open>Example inputs\<close>

text \<open>A decodable RGB photograph without EXIF data.\<close>

definition rgb_file :: image_file where
  "rgb_file =
     \<lparr>opened = Inr \<lparr>bands = 3, width = 640, height = 480, angle = 0\<rparr>,
      exif = Exif_none, rotate_fault = None\<rparr>"

text \<open>A decodable RGB image on which \<^verbatim>\<open>_getexif()\<close> raises.\<close>

definition no_getexif_file :: image_file where
  "no_getexif_file =
     \<lparr>opened = Inr \<lparr>bands = 3, width = 640, height = 480, angle = 0\<rparr>,
      exif = Exif_error ''_getexif'', rotate_fault = None\<rparr>"

text \<open>A file that \<^verbatim>\<open>Image.open\<close> rejects.\<close>

definition corrupt_file :: image_file where
  "corrupt_file =
     \<lparr>opened = Inl ''cannot identify image file'', exif = Exif_none, rotate_fault = None\<rparr>"

text \<open>A process that prints two lines and fails, and one that prints nothing and succeeds.\<close>

definition failing_process :: process where
  "failing_process =
     \<lparr>reads = [(''Loading\<newline>'', False), ('''', False), (''  bad input \<newline>'', True)],
      returncode = 3\<rparr>"

definition quiet_process :: process where
  "quiet_process = \<lparr>reads = [], returncode = 0\<rparr>"

text \<open>
  A run of two photographs in which every step succeeds, and variants of it. The images
  directory also holds a file that is not an image; the sparse-model root holds the models
  \<^verbatim>\<open>1\<close> and \<^verbatim>\<open>2\<close>.
\<close>

definition happy_world :: world where
  "happy_world =
     \<lparr>run_id = ''ab12cd34'',
      base_dir = ''/srv/app'',
      images_dir = [(''b.png'', rgb_file), (''a.jpg'', rgb_file), (''notes.txt'', corrupt_file)],
      stage_listing =
        (\<lambda>folder.
           if folder = ''images'' then Some [''b.png'', ''a.jpg'', ''notes.txt'']
           else if folder = ''edges'' then Some [''b_edges.png'', ''a_edges.png'']
           else if folder = ''median_filtered'' then Some [''b_median.png'', ''a_median.png'']
           else if folder = ''morphology'' then Some [''b_morph.png'', ''a_morph.png'']
           else Some [''b.jpg'', ''a.jpg'']),
      final_processed_dir = Some [''b.jpg'', ''a.jpg''],
      feature_extractor = quiet_process,
      exhaustive_matcher = quiet_process,
      mapper = quiet_process,
      sparse_listing = [(''cameras.txt'', File), (''1'', Dir), (''2'', Dir)],
      model_converter = quiet_process,
      image_undistorter = quiet_process,
      patch_match_stereo = quiet_process,
      stereo_fusion = quiet_process,
      fused_ply_exists = True\<rparr>"

definition missing_artifact_world :: world where
  "missing_artifact_world = happy_world\<lparr>fused_ply_exists := False\<rparr>"

definition converter_fails_world :: world where
  "converter_fails_world = happy_world\<lparr>model_converter := failing_process\<rparr>"

definition no_images_world :: world where
  "no_images_world = happy_world\<lparr>images_dir := [(''notes.txt'', corrupt_file)]\<rparr>"

definition no_final_world :: world where
  "no_final_world = happy_world\<lparr>final_processed_dir := None\<rparr>"

definition empty_final_world :: world where
  "empty_final_world = happy_world\<lparr>final_processed_dir := Some []\<rparr>"

definition second_fails_world :: world where
  "second_fails_world =
     happy_world\<lparr>images_dir := [(''c.jpeg'', rgb_file), (''b.png'', corrupt_file), (''a.jpg'', rgb_file)]\<rparr>"

definition reversed_listing_world :: world where
  "reversed_listing_world = happy_world\<lparr>sparse_listing := [(''2'', Dir), (''1'', Dir)]\<rparr>"

definition zero_file_world :: world where
  "zero_file_world = happy_world\<lparr>sparse_listing := [(''0'', File)]\<rparr>"

definition no_model_world :: world where
  "no_model_world = happy_world\<lparr>sparse_listing := [(''cameras.txt'', File)]\<rparr>"

text \<open>The model index the two searches agree on, if any.\<close>

definition model_index_of :: "(string \<times> kind) list \<Rightarrow> string option" where
  "model_index_of listing =
     (case find is_dir listing of
        Some sub \<Rightarrow> Some (fst sub)
      | None \<Rightarrow> if path_exists listing ''0'' then Some ''0'' else None)"

definition ends_with_success :: "obs list \<Rightarrow> bool" where
  "ends_with_success t =
     (events t \<noteq> [] \<and> map_of (last (events t)) ''type'' = Some (Str ''done''))"

definition ends_with_error :: "obs list \<Rightarrow> bool" where
  "ends_with_error t = (events t \<noteq> [] \<and> type_is_error (last (events t)))"

text \<open>How far a run gets: whether the fusion command is started.\<close>

definition fusion_started :: "obs list \<Rightarrow> world \<Rightarrow> bool" where
  "fusion_started t w = (fuse_cmd w \<in> set (commands t))"

definition fusion_decides :: "obs list \<Rightarrow> world \<Rightarrow> bool" where
  "fusion_decides t w =
     (events t \<noteq> [] \<and>
      (ends_with_success t \<longleftrightarrow>
         fusion_started t w \<and> returncode (stereo_fusion w) = 0 \<and> fused_ply_exists w) \<and>
      (fusion_started t w \<and> returncode (stereo_fusion w) \<noteq> 0 \<longrightarrow> ends_with_error t) \<and>
      (fusion_started t w \<and> returncode (stereo_fusion w) = 0 \<and> \<not> fused_ply_exists w \<longrightarrow>
         last (events t) =
           [(''type'', Str ''error''), (''message'', Str ''fused.ply not found after fusion''),
            (''progress'', Num 95)]))"

text \<open>
  The sparse mapping has succeeded: there are images, none fails preprocessing, the folder
  \<^verbatim>\<open>out/final_processed\<close> exists, and the feature extractor, the matcher and the mapper exit
  with code 0.
\<close>

definition mapping_succeeded :: "world \<Rightarrow> bool" where
  "mapping_succeeded w =
     (image_paths w \<noteq> [] \<and> (\<forall>p \<in> set (image_paths w). \<not> preprocess_fails w p) \<and>
      final_processed_dir w \<noteq> None \<and> returncode (feature_extractor w) = 0 \<and>
      returncode (exhaustive_matcher w) = 0 \<and> returncode (mapper w) = 0)"

text \<open>
  The progress values of a stream, the error events of progress 0 left out, do not
  decrease and lie between two bounds.
\<close>

definition rising :: "int \<Rightarrow> int \<Rightarrow> event list \<Rightarrow> bool" where
  "rising lo hi evs =
     (sorted (progress_track evs) \<and> (\<forall>n \<in> set (progress_track evs). lo \<le> n \<and> n \<le> hi))"

section \<open>Lemmas\<close>

subsection \<open>Rounding\<close>

lemma rhe_bounds: "of_int (round_half_even q) \<le> q + 1/2" "q - 1/2 \<le> of_int (round_half_even q)"
  unfolding round_half_even_def Let_def by (auto; linarith)+

lemma rhe_of_int [simp]: "round_half_even (of_int n) = n"
  by (simp add: round_half_even_def)

lemma rhe_mono: assumes "q \<le> q'" shows "round_half_even q \<le> round_half_even q'"
proof (cases "\<lfloor>q\<rfloor> = \<lfloor>q'\<rfloor>")
  case True
  with assms show ?thesis unfolding round_half_even_def Let_def by auto
next
  case False
  with assms have "\<lfloor>q\<rfloor> + 1 \<le> \<lfloor>q'\<rfloor>" using floor_mono[OF assms] by linarith
  moreover have "round_half_even q \<le> \<lfloor>q\<rfloor> + 1" unfolding round_half_even_def Let_def by auto
  moreover have "\<lfloor>q'\<rfloor> \<le> round_half_even q'" unfolding round_half_even_def Let_def by auto
  ultimately show ?thesis by linarith
qed

lemma ilog2_bounds:
  assumes "0 < x"
  shows "2 powi (ilog2 x) \<le> x" and "x < 2 powi (ilog2 x + 1)"
proof -
  obtain a b where q: "quotient_of x = (a, b)" by (cases "quotient_of x")
  then have b: "0 < b" and x: "x = of_int a / of_int b"
    using quotient_of_denom_pos quotient_of_div by auto
  with assms have a: "0 < a" by (simp add: zero_less_divide_iff)
  define m where "m = nat (bitlen a - 1)"
  define k where "k = nat (bitlen b - 1)"
  have bm: "bitlen a = int m + 1" and bk: "bitlen b = int k + 1"
    using a b bitlen_eq_zero_iff[of a] bitlen_eq_zero_iff[of b] bitlen_nonneg[of a] bitlen_nonneg[of b]
    unfolding m_def k_def by linarith+
  have ia: "2 ^ m \<le> a" "a < 2 ^ Suc m"
    using bitlen_bounds[OF a] by (simp_all add: bm m_def[symmetric] nat_add_distrib)
  have ib: "2 ^ k \<le> b" "b < 2 ^ Suc k"
    using bitlen_bounds[OF b] by (simp_all add: bk k_def[symmetric] nat_add_distrib)
  have a1: "(2::rat) ^ m \<le> of_int a" and a2: "of_int a < (2::rat) ^ Suc m"
    using ia of_int_le_iff[of "2 ^ m" a, where ?'a = rat] of_int_less_iff[of a "2 ^ Suc m", where ?'a = rat]
    by simp_all
  have b1: "(2::rat) ^ k \<le> of_int b" and b2: "of_int b < (2::rat) ^ Suc k"
    using ib of_int_le_iff[of "2 ^ k" b, where ?'a = rat] of_int_less_iff[of b "2 ^ Suc k", where ?'a = rat]
    by simp_all
  have e: "bitlen a - bitlen b = int m - int k" by (simp add: bm bk)
  have pa: "0 < (of_int a :: rat)" and pb: "0 < (of_int b :: rat)" using a b by simp_all
  have up: "x < 2 powi (int m - int k + 1)"
  proof -
    have "of_int a * (2::rat) ^ k < 2 ^ Suc m * of_int b"
      using a2 b1 pa pb by (meson mult_strict_mono' less_imp_le zero_less_power zero_less_numeral mult_less_le_imp_less order_less_le_trans zero_le_power zero_le_numeral)
    then have "x < 2 ^ Suc m / 2 ^ k"
      unfolding x using pb by (simp add: field_simps)
    also have "\<dots> = 2 powi (int m - int k + 1)"
      by (simp add: power_int_diff power_int_add)
    finally show ?thesis .
  qed
  have lo: "2 powi (int m - int k - 1) < x"
  proof -
    have "(2::rat) ^ m * of_int b < of_int a * 2 ^ Suc k"
      using a1 b2 pa pb by (meson mult_le_less_imp_less zero_less_power zero_less_numeral less_imp_le)
    then have "2 ^ m / 2 ^ Suc k < x"
      unfolding x using pb by (simp add: field_simps)
    moreover have "(2::rat) ^ m / 2 ^ Suc k = 2 powi (int m - int k - 1)"
      by (simp add: power_int_diff)
    ultimately show ?thesis by simp
  qed
  show "2 powi (ilog2 x) \<le> x" using lo by (auto simp: ilog2_def q Let_def e)
  show "x < 2 powi (ilog2 x + 1)" using up by (auto simp: ilog2_def q Let_def e)
qed


lemma ilog2_mono:
  assumes "0 < x" "x \<le> y"
  shows "ilog2 x \<le> ilog2 y"
proof (rule ccontr)
  assume "\<not> ilog2 x \<le> ilog2 y"
  then have "ilog2 y + 1 \<le> ilog2 x" by simp
  then have "(2::rat) powi (ilog2 y + 1) \<le> 2 powi (ilog2 x)"
    by (intro power_int_increasing) simp_all
  also have "\<dots> \<le> x" using ilog2_bounds(1)[OF assms(1)] .
  also have "\<dots> \<le> y" by fact
  also have "\<dots> < 2 powi (ilog2 y + 1)" using ilog2_bounds(2)[of y] assms by simp
  finally show False by simp
qed

lemma fl_pos_eq:
  "0 < x \<Longrightarrow> fl x = of_int (round_half_even (x / 2 powi (ilog2 x - 52))) * 2 powi (ilog2 x - 52)"
  by (simp add: fl_def Let_def)

lemma scaled_range:
  assumes "0 < x"
  shows "2 ^ 52 \<le> x / 2 powi (ilog2 x - 52)" and "x / 2 powi (ilog2 x - 52) \<le> 2 ^ 53"
proof -
  have p: "(0::rat) < 2 powi (ilog2 x - 52)" by simp
  have "(2::rat) ^ 52 * 2 powi (ilog2 x - 52) = 2 powi (ilog2 x)"
    by (simp add: power_int_diff)
  then show "2 ^ 52 \<le> x / 2 powi (ilog2 x - 52)"
    using ilog2_bounds(1)[OF assms] p by (simp add: pos_le_divide_eq)
  have "(2::rat) ^ 53 * 2 powi (ilog2 x - 52) = 2 powi (ilog2 x + 1)"
    by (simp add: power_int_diff power_int_add)
  then show "x / 2 powi (ilog2 x - 52) \<le> 2 ^ 53"
    using ilog2_bounds(2)[OF assms] p by (simp add: pos_divide_le_eq)
qed

lemma fl_range:
  assumes "0 < x"
  shows "2 powi (ilog2 x) \<le> fl x" and "fl x \<le> 2 powi (ilog2 x + 1)"
proof -
  let ?s = "(2::rat) powi (ilog2 x - 52)"
  let ?r = "round_half_even (x / ?s)"
  have p: "0 < ?s" by simp
  have "(2 ^ 52 :: int) \<le> ?r"
    using rhe_mono[OF scaled_range(1)[OF assms]] rhe_of_int[of "2 ^ 52"] by simp
  then have lo: "(2::rat) ^ 52 \<le> of_int ?r"
    using of_int_le_iff[of "2 ^ 52" ?r, where ?'a = rat] by simp
  have "?r \<le> (2 ^ 53 :: int)"
    using rhe_mono[OF scaled_range(2)[OF assms]] rhe_of_int[of "2 ^ 53"] by simp
  then have hi: "of_int ?r \<le> (2::rat) ^ 53"
    using of_int_le_iff[of ?r "2 ^ 53", where ?'a = rat] by simp
  have "(2::rat) powi (ilog2 x) = 2 ^ 52 * ?s" by (simp add: power_int_diff)
  also have "\<dots> \<le> of_int ?r * ?s" using lo p by (intro mult_right_mono) simp_all
  finally show "2 powi (ilog2 x) \<le> fl x" by (simp add: fl_pos_eq[OF assms])
  have "of_int ?r * ?s \<le> 2 ^ 53 * ?s" using hi p by (intro mult_right_mono) simp_all
  also have "\<dots> = 2 powi (ilog2 x + 1)" by (simp add: power_int_diff power_int_add)
  finally show "fl x \<le> 2 powi (ilog2 x + 1)" by (simp add: fl_pos_eq[OF assms])
qed

lemma fl_nonneg: "0 \<le> x \<Longrightarrow> 0 \<le> fl x"
proof (cases "x = 0")
  case True then show ?thesis by (simp add: fl_def)
next
  case False
  assume "0 \<le> x"
  with False have "0 < x" by simp
  from fl_range(1)[OF this] have "(0::rat) < 2 powi (ilog2 x) \<Longrightarrow> 0 \<le> fl x" by linarith
  then show ?thesis by simp
qed

lemma fl_mono:
  assumes "0 \<le> x" "x \<le> y"
  shows "fl x \<le> fl y"
proof (cases "x = 0")
  case True
  then show ?thesis using fl_nonneg[of y] assms by (simp add: fl_def)
next
  case False
  with assms have x: "0 < x" and y: "0 < y" by simp_all
  show ?thesis
  proof (cases "ilog2 x = ilog2 y")
    case True
    let ?s = "(2::rat) powi (ilog2 y - 52)"
    have "x / ?s \<le> y / ?s" using assms(2) by (simp add: divide_right_mono)
    then have "round_half_even (x / ?s) \<le> round_half_even (y / ?s)" by (rule rhe_mono)
    then have "(of_int (round_half_even (x / ?s)) :: rat) \<le> of_int (round_half_even (y / ?s))" by simp
    then have "of_int (round_half_even (x / ?s)) * ?s \<le> of_int (round_half_even (y / ?s)) * ?s"
      by (intro mult_right_mono) simp_all
    then show ?thesis by (simp add: fl_pos_eq[OF x] fl_pos_eq[OF y] True)
  next
    case False
    with ilog2_mono[OF x assms(2)] have "ilog2 x + 1 \<le> ilog2 y" by simp
    then have "(2::rat) powi (ilog2 x + 1) \<le> 2 powi (ilog2 y)"
      by (intro power_int_increasing) simp_all
    with fl_range(2)[OF x] fl_range(1)[OF y] show ?thesis by linarith
  qed
qed

lemma fl_1: "fl 1 = 1" by code_simp
lemma fl_2: "fl 2 = 2" by code_simp
lemma fl_18: "fl 18 = 18" by code_simp
lemma fl_20: "fl 20 = 20" by code_simp
lemma fl_0: "fl 0 = 0" by (simp add: fl_def)
lemmas fl_consts = fl_0 fl_1 fl_2 fl_18 fl_20

lemma progress_of_mono:
  assumes "i \<le> j"
  shows "progress_of i n \<le> progress_of j n"
proof -
  have a: "(0::rat) \<le> of_nat i / of_nat n" by simp
  have "(of_nat i :: rat) / of_nat n \<le> of_nat j / of_nat n"
    using assms by (simp add: divide_right_mono)
  from fl_mono[OF a this] have "18 * fl (of_nat i / of_nat n) \<le> 18 * fl (of_nat j / of_nat n)" by simp
  moreover have "0 \<le> 18 * fl (of_nat i / of_nat n)" using fl_nonneg[OF a] by simp
  ultimately have b: "fl (18 * fl (of_nat i / of_nat n)) \<le> fl (18 * fl (of_nat j / of_nat n))"
    by (rule fl_mono[rotated])
  have "0 \<le> fl (18 * fl (of_nat i / of_nat n))" using fl_nonneg[OF a] fl_nonneg by simp
  then have "fl (2 + fl (18 * fl (of_nat i / of_nat n))) \<le> fl (2 + fl (18 * fl (of_nat j / of_nat n)))"
    using b by (intro fl_mono) simp_all
  moreover have "0 \<le> fl (2 + fl (18 * fl (of_nat i / of_nat n)))"
    using \<open>0 \<le> fl (18 * fl (of_nat i / of_nat n))\<close> by (intro fl_nonneg) simp
  ultimately show ?thesis
    unfolding progress_of_def py_int_def using floor_mono by (auto intro: order_trans)
qed

lemma progress_of_full: "0 < n \<Longrightarrow> progress_of n n = 20"
  by (simp add: progress_of_def fl_consts py_int_def)

lemma progress_of_zero: "progress_of 0 n = 2"
  by (simp add: progress_of_def fl_consts py_int_def)

lemma progress_of_bounds:
  assumes "i \<le> n" "0 < n"
  shows "2 \<le> progress_of i n" "progress_of i n \<le> 20"
  using progress_of_mono[of 0 i n] progress_of_mono[OF assms(1), of n] assms(2)
  by (simp_all add: progress_of_zero progress_of_full)

subsection \<open>File names\<close>

lemma rfind_last_dot:
  assumes "CHR ''.'' \<notin> set e"
  shows "rfind CHR ''.'' (b @ CHR ''.'' # e) = int (length b)"
proof -
  have "takeWhile (\<lambda>x. x \<noteq> CHR ''.'') (rev e @ CHR ''.'' # rev b) = rev e"
    using assms by (auto simp: takeWhile_tail)
  then show ?thesis by (simp add: rfind_def)
qed

lemma suffix_of_dot:
  assumes "b \<noteq> []" "e \<noteq> []" "CHR ''.'' \<notin> set e"
  shows "suffix_of (b @ CHR ''.'' # e) = CHR ''.'' # e"
  using assms by (simp add: suffix_of_def rfind_last_dot)

lemma suffix_of_png: "suffix_of (stem @ tag # tags @ ''.png'') = ''.png''"
  using suffix_of_dot[of "stem @ tag # tags" "''png''"] by simp

lemma suffix_of_jpg: "b \<noteq> [] \<Longrightarrow> suffix_of (b @ ''.jpg'') = ''.jpg''"
  using suffix_of_dot[of b "''jpg''"] by simp

lemma suffix_of_Nil_or_pos:
  "suffix_of name = [] \<or> (\<exists>i. 0 < i \<and> i < length name \<and> suffix_of name = drop i name)"
  unfolding suffix_of_def Let_def
  by (cases "0 < rfind CHR ''.'' name \<and> rfind CHR ''.'' name < int (length name) - 1")
     (auto intro!: exI[of _ "nat (rfind CHR ''.'' name)"])

lemma with_suffix_base:
  assumes "name \<noteq> []"
  shows "\<exists>b. b \<noteq> [] \<and> with_suffix name s = b @ s"
proof (cases "suffix_of name = []")
  case True
  with assms show ?thesis by (auto simp: with_suffix_def)
next
  case False
  with suffix_of_Nil_or_pos[of name] obtain i
    where i: "0 < i" "i < length name" "suffix_of name = drop i name" by auto
  then have "take (length name - length (suffix_of name)) name \<noteq> []" by auto
  with False show ?thesis by (auto simp: with_suffix_def Let_def)
qed

lemma suffix_of_with_suffix_jpg:
  "name \<noteq> [] \<Longrightarrow> suffix_of (with_suffix name ''.jpg'') = ''.jpg''"
  using with_suffix_base[of name "''.jpg''"] suffix_of_jpg by auto

lemma lower_png [simp]: "lower ''.png'' = ''.png''" by (simp add: lower_def lower_char_def)
lemma lower_jpg [simp]: "lower ''.jpg'' = ''.jpg''" by (simp add: lower_def lower_char_def)

lemma codec_of_jpeg_name: "name \<noteq> [] \<Longrightarrow> codec_of (jpeg_name name) = JPEG"
  by (auto simp: codec_of_def jpeg_name_def suffix_of_with_suffix_jpg)

lemma codec_of_png: "codec_of (stem @ tag # tags @ ''.png'') = PNG"
  by (simp add: codec_of_def suffix_of_png)

lemma save_image_colour:
  "ndim img = 3 \<Longrightarrow> save_image folder name img =
     \<lparr>wr_folder = folder, wr_file = jpeg_name name, wr_params = [(''IMWRITE_JPEG_QUALITY'', 95)], wr_ndim = 3\<rparr>"
  by (simp add: save_image_def jpeg_name_def Let_def)

lemma save_image_single:
  "ndim img = 2 \<Longrightarrow> save_image folder (stem @ tag # tags @ ''.png'') img =
     \<lparr>wr_folder = folder, wr_file = stem @ tag # tags @ ''.png'', wr_params = [], wr_ndim = 2\<rparr>"
  by (simp add: save_image_def Let_def suffix_of_png)

subsection \<open>Observations, forwarding and commands\<close>

lemma events_append [simp]: "events (xs @ ys) = events xs @ events ys"
  by (induction xs rule: events.induct) auto

lemma commands_append [simp]: "commands (xs @ ys) = commands xs @ commands ys"
  by (induction xs rule: commands.induct) auto

lemma Yield_in_set: "Yield ev \<in> set xs \<longleftrightarrow> ev \<in> set (events xs)"
  by (induction xs rule: events.induct) auto

lemma relay_no_stop:
  "\<forall>ev \<in> set (events xs). \<not> stop ev \<Longrightarrow> relay stop xs = (xs, False)"
  by (induction stop xs rule: relay.induct) auto

lemma relay_stop_at:
  "\<forall>ev \<in> set (events xs). \<not> stop ev \<Longrightarrow> stop e \<Longrightarrow>
     relay stop (xs @ Yield e # ys) = (xs @ [Yield e], True)"
  by (induction stop xs rule: relay.induct) auto

lemma read_loop_captured:
  "read_loop ps rs =
     map (\<lambda>l. Yield [(''type'', Str ''log''), (''message'', Str (strip l)), (''progress'', Atom ps)])
       (captured_lines rs)"
  by (induction ps rs rule: read_loop.induct) (auto simp: captured_lines_def)

lemma events_map_Yield [simp]: "events (map (\<lambda>x. Yield (g x)) xs) = map g xs"
  by (induction xs) auto

lemma commands_map_Yield [simp]: "commands (map (\<lambda>x. Yield (g x)) xs) = []"
  by (induction xs) auto

lemma read_loop_no_error:
  "\<forall>ev \<in> set (events (read_loop ps rs)). \<not> type_is_error ev \<and> \<not> stage_startswith_error ev"
  by (auto simp: read_loop_captured type_is_error_def stage_startswith_error_def)

lemma commands_read_loop [simp]: "commands (read_loop ps rs) = []"
  by (simp add: read_loop_captured)

lemma started_no_error:
  "\<forall>ev \<in> set (events (started cmd ps proc)). \<not> type_is_error ev \<and> \<not> stage_startswith_error ev"
  using read_loop_no_error[of ps "reads proc"]
  by (auto simp: started_def type_is_error_def stage_startswith_error_def)

lemma step_type_is_error:
  "and_then (relay type_is_error (fst (run_cmd cmd ps pe nm proc))) rest =
     fst (run_cmd cmd ps pe nm proc) @ (if returncode proc \<noteq> 0 then [] else rest)"
proof (cases "returncode proc \<noteq> 0")
  case True
  have "relay type_is_error (started cmd ps proc @ Yield [(''type'', Str ''error''),
          (''message'', Str (''Command '' @ join '' '' cmd @ '' exited with code '' @ str_int (returncode proc))),
          (''progress'', Atom ps)] # []) = (started cmd ps proc @ [Yield [(''type'', Str ''error''),
          (''message'', Str (''Command '' @ join '' '' cmd @ '' exited with code '' @ str_int (returncode proc))),
          (''progress'', Atom ps)]], True)"
    using started_no_error by (intro relay_stop_at) (auto simp: type_is_error_def)
  with True show ?thesis
    by (simp add: run_cmd_def Let_def and_then_def started_def)
next
  case False
  have "\<forall>ev \<in> set (events (fst (run_cmd cmd ps pe nm proc))). \<not> type_is_error ev"
    using False started_no_error[of cmd ps proc]
    by (auto simp: run_cmd_def Let_def started_def type_is_error_def)
  from relay_no_stop[OF this] False show ?thesis by (simp add: and_then_def)
qed

lemma step_stage_startswith_error:
  "and_then (relay stage_startswith_error (fst (run_cmd cmd ps pe nm proc))) rest =
     fst (run_cmd cmd ps pe nm proc) @ rest"
proof -
  have "\<forall>ev \<in> set (events (fst (run_cmd cmd ps pe nm proc))). \<not> stage_startswith_error ev"
    using started_no_error[of cmd ps proc]
    by (auto simp: run_cmd_def Let_def started_def stage_startswith_error_def)
  from relay_no_stop[OF this] show ?thesis by (simp add: and_then_def)
qed

section \<open>The claims\<close>

subsection \<open>Decoding\<close>

lemma bands_rotate: "rotate_image f a img = Inr img' \<Longrightarrow> bands img' = bands img"
  by (auto simp: rotate_image_def split: option.splits)

lemma bands_apply_orientation: "apply_orientation f img = Inr img' \<Longrightarrow> bands img' = bands img"
  by (auto simp: apply_orientation_def split: exif_data.splits if_splits dest: bands_rotate)

text \<open>
  Claim C10. When \<^verbatim>\<open>Image.open\<close> has returned an image, an exception raised while the EXIF
  orientation is read or applied is swallowed: \<^verbatim>\<open>load_image\<close> then converts the image as
  opened, not rotated. Whether \<^verbatim>\<open>load_image\<close> returns an array depends on the opened image
  alone, never on the orientation step.
\<close>

theorem load_image_swallows_orientation_failure:
  assumes "opened f = Inr img"
  shows "(apply_orientation f img = Inl e \<longrightarrow> load_image f = to_bgr img) \<and>
         ((\<exists>a. load_image f = Inr a) \<longleftrightarrow> (\<exists>a. to_bgr img = Inr a))"
proof -
  have "(\<exists>a. to_bgr img' = Inr a) \<longleftrightarrow> (\<exists>a. to_bgr img = Inr a)"
    if "apply_orientation f img = Inr img'" for img'
    using bands_apply_orientation[OF that] by (auto simp: to_bgr_def)
  then show ?thesis
    using assms by (auto simp: load_image_def split: sum.splits)
qed

theorem load_image_swallows_orientation_failure_witness:
  "opened no_getexif_file = Inr \<lparr>bands = 3, width = 640, height = 480, angle = 0\<rparr> \<and>
   apply_orientation no_getexif_file \<lparr>bands = 3, width = 640, height = 480, angle = 0\<rparr> = Inl ''_getexif'' \<and>
   load_image no_getexif_file = Inr \<lparr>rows = 480, cols = 640, ndim = 3\<rparr>"
proof -
  have o: "opened no_getexif_file = Inr \<lparr>bands = 3, width = 640, height = 480, angle = 0\<rparr>"
    by (simp add: no_getexif_file_def)
  have a: "apply_orientation no_getexif_file \<lparr>bands = 3, width = 640, height = 480, angle = 0\<rparr> = Inl ''_getexif''"
    by (simp add: apply_orientation_def no_getexif_file_def)
  from load_image_swallows_orientation_failure[OF o, of "''_getexif''"] a
  have "load_image no_getexif_file = to_bgr \<lparr>bands = 3, width = 640, height = 480, angle = 0\<rparr>" by simp
  then show ?thesis using o a by (simp add: to_bgr_def)
qed

subsection \<open>Output naming\<close>

text \<open>
  Claim C8. For every image that is preprocessed, the seven writes are, in order: the three
  colour stages under the original file name, with the extension replaced by \<^verbatim>\<open>.jpg\<close>
  unless it is \<^verbatim>\<open>.jpg\<close> or \<^verbatim>\<open>.jpeg\<close> in any case, encoded as JPEG with quality 95; the
  edges, median and morphology stages under the stem with the suffix of the stage and the
  extension \<^verbatim>\<open>.png\<close>, encoded as PNG, whatever the extension of the input; and the final
  stage, named and encoded as the colour stages.
\<close>

theorem output_naming:
  assumes "preprocess_and_save_all_stages f name out_dir max_size = Inr written"
    and "name \<noteq> []"
  shows "map (\<lambda>x. (wr_folder x, wr_file x, codec_of (wr_file x), wr_params x, wr_ndim x)) written =
     [(pjoin out_dir ''histogram_equalized'', jpeg_name name, JPEG, [(''IMWRITE_JPEG_QUALITY'', 95)], 3),
      (pjoin out_dir ''gaussian_blur'', jpeg_name name, JPEG, [(''IMWRITE_JPEG_QUALITY'', 95)], 3),
      (pjoin out_dir ''sharpened'', jpeg_name name, JPEG, [(''IMWRITE_JPEG_QUALITY'', 95)], 3),
      (pjoin out_dir ''edges'', stem_of name @ ''_edges.png'', PNG, [], 2),
      (pjoin out_dir ''median_filtered'', stem_of name @ ''_median.png'', PNG, [], 2),
      (pjoin out_dir ''morphology'', stem_of name @ ''_morph.png'', PNG, [], 2),
      (pjoin out_dir ''final_processed'', jpeg_name name, JPEG, [(''IMWRITE_JPEG_QUALITY'', 95)], 3)]"
proof -
  from assms(1) obtain img where w: "written =
     [save_image (pjoin out_dir ''histogram_equalized'') name (colour img),
      save_image (pjoin out_dir ''gaussian_blur'') name (colour img),
      save_image (pjoin out_dir ''sharpened'') name (colour img),
      save_image (pjoin out_dir ''edges'') (stem_of name @ ''_edges.png'') (single_channel (colour img)),
      save_image (pjoin out_dir ''median_filtered'') (stem_of name @ ''_median.png'') (single_channel (colour img)),
      save_image (pjoin out_dir ''morphology'') (stem_of name @ ''_morph.png'') (single_channel (colour img)),
      save_image (pjoin out_dir ''final_processed'') name (colour img)]"
    by (auto simp: preprocess_and_save_all_stages_def Let_def split: sum.splits)
  have c: "ndim (colour img) = 3" and s: "ndim (single_channel (colour img)) = 2"
    by (simp_all add: colour_def single_channel_def)
  let ?g = "single_channel (colour img)"
  have e: "save_image folder (stem @ ''_edges.png'') ?g =
      \<lparr>wr_folder = folder, wr_file = stem @ ''_edges.png'', wr_params = [], wr_ndim = 2\<rparr>"
    and m: "save_image folder (stem @ ''_median.png'') ?g =
      \<lparr>wr_folder = folder, wr_file = stem @ ''_median.png'', wr_params = [], wr_ndim = 2\<rparr>"
    and o: "save_image folder (stem @ ''_morph.png'') ?g =
      \<lparr>wr_folder = folder, wr_file = stem @ ''_morph.png'', wr_params = [], wr_ndim = 2\<rparr>"
    for folder stem
    using save_image_single[OF s, of folder stem "CHR ''_''" "''edges''"]
      save_image_single[OF s, of folder stem "CHR ''_''" "''median''"]
      save_image_single[OF s, of folder stem "CHR ''_''" "''morph''"]
    by simp_all
  have p: "codec_of (stem @ ''_edges.png'') = PNG" "codec_of (stem @ ''_median.png'') = PNG"
    "codec_of (stem @ ''_morph.png'') = PNG" for stem
    using codec_of_png[of stem "CHR ''_''" "''edges''"] codec_of_png[of stem "CHR ''_''" "''median''"]
      codec_of_png[of stem "CHR ''_''" "''morph''"]
    by simp_all
  show ?thesis
    unfolding w using assms(2)
    by (simp add: save_image_colour[OF c] e m o p codec_of_jpeg_name)
qed

lemma pre_png: "preprocess_and_save_all_stages rgb_file ''IMG_1.PNG'' ''/o'' 2048 =
   Inr [save_image ''/o/histogram_equalized'' ''IMG_1.PNG'' \<lparr>rows = 480, cols = 640, ndim = 3\<rparr>,
        save_image ''/o/gaussian_blur'' ''IMG_1.PNG'' \<lparr>rows = 480, cols = 640, ndim = 3\<rparr>,
        save_image ''/o/sharpened'' ''IMG_1.PNG'' \<lparr>rows = 480, cols = 640, ndim = 3\<rparr>,
        save_image ''/o/edges'' ''IMG_1_edges.png'' \<lparr>rows = 480, cols = 640, ndim = 2\<rparr>,
        save_image ''/o/median_filtered'' ''IMG_1_median.png'' \<lparr>rows = 480, cols = 640, ndim = 2\<rparr>,
        save_image ''/o/morphology'' ''IMG_1_morph.png'' \<lparr>rows = 480, cols = 640, ndim = 2\<rparr>,
        save_image ''/o/final_processed'' ''IMG_1.PNG'' \<lparr>rows = 480, cols = 640, ndim = 3\<rparr>]"
  by (simp add: preprocess_and_save_all_stages_def load_image_def rgb_file_def apply_orientation_def
      to_bgr_def resize_to_def Let_def colour_def single_channel_def pjoin_def stem_of_def rfind_def)

theorem output_naming_witness:
  "(\<exists>written. preprocess_and_save_all_stages rgb_file ''IMG_1.PNG'' ''/o'' 2048 = Inr written \<and>
     map (\<lambda>x. (wr_folder x, wr_file x, codec_of (wr_file x), wr_params x, wr_ndim x)) written =
     [(pjoin ''/o'' ''histogram_equalized'', jpeg_name ''IMG_1.PNG'', JPEG, [(''IMWRITE_JPEG_QUALITY'', 95)], 3),
      (pjoin ''/o'' ''gaussian_blur'', jpeg_name ''IMG_1.PNG'', JPEG, [(''IMWRITE_JPEG_QUALITY'', 95)], 3),
      (pjoin ''/o'' ''sharpened'', jpeg_name ''IMG_1.PNG'', JPEG, [(''IMWRITE_JPEG_QUALITY'', 95)], 3),
      (pjoin ''/o'' ''edges'', stem_of ''IMG_1.PNG'' @ ''_edges.png'', PNG, [], 2),
      (pjoin ''/o'' ''median_filtered'', stem_of ''IMG_1.PNG'' @ ''_median.png'', PNG, [], 2),
      (pjoin ''/o'' ''morphology'', stem_of ''IMG_1.PNG'' @ ''_morph.png'', PNG, [], 2),
      (pjoin ''/o'' ''final_processed'', jpeg_name ''IMG_1.PNG'', JPEG, [(''IMWRITE_JPEG_QUALITY'', 95)], 3)])
   \<and> jpeg_name ''IMG_1.PNG'' = ''IMG_1.jpg'' \<and> stem_of ''IMG_1.PNG'' = ''IMG_1''"
proof -
  have j: "jpeg_name ''IMG_1.PNG'' = ''IMG_1.jpg''"
    by (simp add: jpeg_name_def with_suffix_def suffix_of_def rfind_def lower_def lower_char_def)
  have s: "stem_of ''IMG_1.PNG'' = ''IMG_1''"
    by (simp add: stem_of_def rfind_def)
  have n: "''IMG_1.PNG'' \<noteq> []" by simp
  show ?thesis
    by (intro conjI exI[of _ "[save_image ''/o/histogram_equalized'' ''IMG_1.PNG'' \<lparr>rows = 480, cols = 640, ndim = 3\<rparr>,
        save_image ''/o/gaussian_blur'' ''IMG_1.PNG'' \<lparr>rows = 480, cols = 640, ndim = 3\<rparr>,
        save_image ''/o/sharpened'' ''IMG_1.PNG'' \<lparr>rows = 480, cols = 640, ndim = 3\<rparr>,
        save_image ''/o/edges'' ''IMG_1_edges.png'' \<lparr>rows = 480, cols = 640, ndim = 2\<rparr>,
        save_image ''/o/median_filtered'' ''IMG_1_median.png'' \<lparr>rows = 480, cols = 640, ndim = 2\<rparr>,
        save_image ''/o/morphology'' ''IMG_1_morph.png'' \<lparr>rows = 480, cols = 640, ndim = 2\<rparr>,
        save_image ''/o/final_processed'' ''IMG_1.PNG'' \<lparr>rows = 480, cols = 640, ndim = 3\<rparr>]"]
        pre_png output_naming[OF pre_png n] j s)
qed

subsection \<open>The events of one command\<close>

text \<open>
  Claim C9. A call of \<^verbatim>\<open>run_cmd\<close> starts its command once and yields: a status event
  announcing the command at \<open>progress_start\<close>; one log event per captured output line, in
  the order of the output, each at \<open>progress_start\<close>; then, when the exit code is not 0, an
  error event whose message carries the exit code, and otherwise a stage-done event at
  \<open>progress_end\<close> (when the stage name is given and not empty) followed by a finished
  status event at \<open>progress_end\<close>.
\<close>

theorem run_cmd_event_sequence:
  "events (fst (run_cmd cmd progress_start progress_end colmap_stage_name proc)) =
     [(''type'', Str ''status''), (''message'', Str (''Running: '' @ join '' '' cmd)),
      (''progress'', Atom progress_start)] #
     map (\<lambda>l. [(''type'', Str ''log''), (''message'', Str (strip l)), (''progress'', Atom progress_start)])
       (captured_lines (reads proc)) @
     (if returncode proc \<noteq> 0 then
        [[(''type'', Str ''error''),
          (''message'', Str (''Command '' @ join '' '' cmd @ '' exited with code '' @ str_int (returncode proc))),
          (''progress'', Atom progress_start)]]
      else
        (if truthy colmap_stage_name then
           [[(''type'', Str ''stage_done''), (''group'', Str ''colmap''),
             (''stage_name'', Atom colmap_stage_name), (''progress'', Atom progress_end)]]
         else []) @
        [[(''type'', Str ''status''),
          (''message'', Str (py_str (py_or colmap_stage_name (AStr ''command'')) @ '' finished'')),
          (''progress'', Atom progress_end)]])
   \<and> commands (fst (run_cmd cmd progress_start progress_end colmap_stage_name proc)) = [cmd]"
  by (simp add: run_cmd_def Let_def read_loop_captured)

lemma str_nat_digit: "n < 10 \<Longrightarrow> str_nat n = [digit n]"
  by (simp add: str_nat.simps)

theorem run_cmd_event_sequence_witness:
  "events (fst (run_cmd [''colmap'', ''mapper''] (AInt 40) (AInt 55) (AStr ''Sparse Mapping'') failing_process)) =
     [[(''type'', Str ''status''), (''message'', Str ''Running: colmap mapper''), (''progress'', Num 40)],
      [(''type'', Str ''log''), (''message'', Str ''Loading''), (''progress'', Num 40)],
      [(''type'', Str ''log''), (''message'', Str ''bad input''), (''progress'', Num 40)],
      [(''type'', Str ''error''), (''message'', Str ''Command colmap mapper exited with code 3''),
       (''progress'', Num 40)]]"
  using run_cmd_event_sequence[of "[''colmap'', ''mapper'']" "AInt 40" "AInt 55" "AStr ''Sparse Mapping''" failing_process]
  by (simp add: failing_process_def captured_lines_def strip_def is_space_def str_int_def str_nat_digit digit_def)

lemma commands_run_cmd [simp]: "commands (fst (run_cmd cmd ps pe nm proc)) = [cmd]"
  by (simp add: run_cmd_def Let_def)

lemma events_run_cmd_nonempty [simp]: "events (fst (run_cmd cmd ps pe nm proc)) \<noteq> []"
  by (simp add: run_cmd_def Let_def)

lemma last_type_run_cmd [simp]:
  "map_of (last (events (fst (run_cmd cmd ps pe nm proc)))) ''type'' =
     Some (Str (if returncode proc \<noteq> 0 then ''error'' else ''status''))"
  by (simp add: run_cmd_def Let_def)

lemma step7_eq:
  "step7_stereo_fusion w =
     fst (run_cmd (fuse_cmd w) (AInt 85) (AInt 95) (AStr ''Fusion (dense)'') (stereo_fusion w)) @
     (if returncode (stereo_fusion w) \<noteq> 0 then []
      else if fused_ply_exists w then
        [Yield [(''type'', Str ''done''), (''message'', Str ''Reconstruction complete''),
                (''progress'', Num 100),
                (''fused_ply'', Str (''/runs/'' @ run_id w @ ''/out/dense/fused.ply''))]]
      else
        [Yield [(''type'', Str ''error''), (''message'', Str ''fused.ply not found after fusion''),
                (''progress'', Num 95)]])"
  by (simp add: step7_stereo_fusion_def step_type_is_error)

lemma step6_eq:
  "step6_patch_match_stereo w =
     fst (run_cmd (pm_cmd w) (AInt 65) (AInt 85) (AStr (COLMAP_STAGES ! 5)) (patch_match_stereo w)) @
     (if returncode (patch_match_stereo w) \<noteq> 0 then [] else step7_stereo_fusion w)"
  by (simp add: step6_patch_match_stereo_def step_type_is_error)

lemma step5_eq:
  "step5_image_undistorter w m =
     fst (run_cmd (undist_cmd w m) (AInt 58) (AInt 65) (AStr (COLMAP_STAGES ! 4)) (image_undistorter w)) @
     (if returncode (image_undistorter w) \<noteq> 0 then [] else step6_patch_match_stereo w)"
  by (simp add: step5_image_undistorter_def step_type_is_error)

lemma run_model_converter_eq:
  "run_model_converter w m =
     fst (run_cmd (converter_cmd w m) (AStr ''model_converter'') (AInt 55) (AInt 58) (model_converter w)) @
     step5_image_undistorter w m"
  by (simp add: run_model_converter_def step_stage_startswith_error)

lemma step3_eq:
  "step3_mapper w =
     fst (run_cmd (map_cmd w) (AInt 40) (AInt 55) (AStr (COLMAP_STAGES ! 2)) (mapper w)) @
     (if returncode (mapper w) \<noteq> 0 then [] else find_model_index w)"
  by (simp add: step3_mapper_def step_type_is_error)

lemma step2_eq:
  "step2_matching w =
     fst (run_cmd (em_cmd w) (AInt 30) (AInt 40) (AStr (COLMAP_STAGES ! 1)) (exhaustive_matcher w)) @
     (if returncode (exhaustive_matcher w) \<noteq> 0 then [] else step3_mapper w)"
  by (simp add: step2_matching_def step_type_is_error)

lemma step1_eq:
  "step1_features w =
     fst (run_cmd (fe_cmd w) (AInt 22) (AInt 30) (AStr (COLMAP_STAGES ! 0)) (feature_extractor w)) @
     (if returncode (feature_extractor w) \<noteq> 0 then [] else step2_matching w)"
  by (simp add: step1_features_def step_type_is_error)

lemma find_filter_hd: "find P xs = (case filter P xs of [] \<Rightarrow> None | x # _ \<Rightarrow> Some x)"
  by (induction xs) auto

lemma path_exists_dir: "find is_dir listing = Some sub \<Longrightarrow> path_exists listing (fst sub)"
  by (auto simp: path_exists_def list_ex_iff find_Some_iff is_dir_def)

lemma find_model_index_eq:
  "find_model_index w =
     (case model_index_of (sparse_listing w) of
        None \<Rightarrow> [Yield [(''type'', Str ''error''), (''message'', Str ''No sparse model found after mapper''),
                        (''progress'', Num 55)]]
      | Some m \<Rightarrow> run_model_converter w m)"
proof (cases "find is_dir (sparse_listing w)")
  case None
  then have "filter is_dir (sparse_listing w) = []"
    by (simp add: find_filter_hd split: list.splits)
  with None show ?thesis
    by (simp add: find_model_index_def step4_model_converter_def model_index_of_def Let_def)
next
  case (Some sub)
  then obtain rest where "filter is_dir (sparse_listing w) = sub # rest"
    by (auto simp: find_filter_hd split: list.splits)
  with Some path_exists_dir[OF Some] show ?thesis
    by (simp add: find_model_index_def step4_model_converter_def model_index_of_def Let_def)
qed

lemma fails_Inr [simp]:
  "preprocess_and_save_all_stages f name (out_root w) 2048 = Inr x \<Longrightarrow> \<not> preprocess_fails w (name, f)"
  by (simp add: preprocess_fails_def)

lemma fails_Inl [simp]:
  "preprocess_and_save_all_stages f name (out_root w) 2048 = Inl e \<Longrightarrow> preprocess_fails w (name, f)"
  by (simp add: preprocess_fails_def)

lemma commands_preprocess_loop [simp]: "commands (fst (preprocess_loop w n i ps)) = []"
  by (induction w n i ps rule: preprocess_loop.induct) (auto split: sum.splits prod.splits)

lemma preprocess_loop_returned:
  "snd (preprocess_loop w n i ps) \<longleftrightarrow> (\<exists>p \<in> set ps. preprocess_fails w p)"
  by (induction w n i ps rule: preprocess_loop.induct)
     (auto split: sum.splits prod.splits)

lemma preprocess_loop_types:
  "map (\<lambda>ev. map_of ev ''type'') (events (fst (preprocess_loop w n i ps))) =
     replicate (length (takeWhile (\<lambda>p. \<not> preprocess_fails w p) ps)) (Some (Str ''preprocess_image'')) @
     (if \<exists>p \<in> set ps. preprocess_fails w p then [Some (Str ''error'')] else [])"
  by (induction w n i ps rule: preprocess_loop.induct)
     (auto split: sum.splits prod.splits)

lemma preprocess_loop_no_group:
  "ev \<in> set (events (fst (preprocess_loop w n i ps))) \<Longrightarrow> map_of ev ''group'' = None"
  by (induction w n i ps rule: preprocess_loop.induct)
     (auto split: sum.splits prod.splits)

lemma preprocess_loop_last_error:
  "snd (preprocess_loop w n i ps) \<Longrightarrow>
     events (fst (preprocess_loop w n i ps)) \<noteq> [] \<and>
     type_is_error (last (events (fst (preprocess_loop w n i ps))))"
  by (induction w n i ps rule: preprocess_loop.induct)
     (auto simp: type_is_error_def split: sum.splits prod.splits)

lemma process_generator_eq:
  "process_generator w =
     [Yield [(''type'', Str ''status''), (''message'', Str ''Run queued''), (''progress'', Num 0)],
      Yield [(''type'', Str ''status''), (''message'', Str ''Starting preprocessing...''),
             (''progress'', Num 2)]] @
     (if image_paths w = [] then
        [Yield [(''type'', Str ''error''), (''message'', Str ''No images found''), (''progress'', Num 0)]]
      else
        fst (preprocess_loop w (length (image_paths w)) 1 (image_paths w)) @
        (if \<exists>p \<in> set (image_paths w). preprocess_fails w p then []
         else Yield [(''type'', Str ''status''), (''message'', Str ''Preprocessing complete''),
                     (''progress'', Num 20)] # stage_events w @ prepare_workspace w))"
  by (simp add: process_generator_def Let_def and_then_def preprocess_loop_returned)

lemma commands_stage_events [simp]: "commands (stage_events w) = []"
  by (simp add: stage_events_def PREPROCESS_STAGES_def)

lemma fuse_cmd_distinct:
  "fuse_cmd w \<noteq> fe_cmd w" "fuse_cmd w \<noteq> em_cmd w" "fuse_cmd w \<noteq> map_cmd w"
  "fuse_cmd w \<noteq> converter_cmd w m" "fuse_cmd w \<noteq> undist_cmd w m" "fuse_cmd w \<noteq> pm_cmd w"
  by (simp_all add: fuse_cmd_def fe_cmd_def em_cmd_def map_cmd_def converter_cmd_def undist_cmd_def pm_cmd_def)

lemma last_events_append:
  "events ys \<noteq> [] \<Longrightarrow> last (events (xs @ ys)) = last (events ys)"
  by simp

text \<open>Step 7 and what comes before it.\<close>

lemma step7_success:
  "ends_with_success (step7_stereo_fusion w) \<longleftrightarrow>
     returncode (stereo_fusion w) = 0 \<and> fused_ply_exists w"
  by (simp add: step7_eq ends_with_success_def)

lemma step7_error:
  "ends_with_error (step7_stereo_fusion w) \<longleftrightarrow>
     \<not> (returncode (stereo_fusion w) = 0 \<and> fused_ply_exists w)"
  by (simp add: step7_eq ends_with_error_def type_is_error_def)

lemma step7_nonempty [simp]: "events (step7_stereo_fusion w) \<noteq> []"
  by (simp add: step7_eq)

lemma step7_commands [simp]: "commands (step7_stereo_fusion w) = [fuse_cmd w]"
  by (simp add: step7_eq)

lemma ends_append:
  "events ys \<noteq> [] \<Longrightarrow> ends_with_success (xs @ ys) = ends_with_success ys"
  "events ys \<noteq> [] \<Longrightarrow> ends_with_error (xs @ ys) = ends_with_error ys"
  by (simp_all add: ends_with_success_def ends_with_error_def)

lemma ends_run_cmd:
  "ends_with_success (xs @ fst (run_cmd cmd ps pe nm proc)) = False"
  "ends_with_error (xs @ fst (run_cmd cmd ps pe nm proc)) = (returncode proc \<noteq> 0)"
  by (simp_all add: ends_with_success_def ends_with_error_def type_is_error_def)

lemma step6_facts:
  "events (step6_patch_match_stereo w) \<noteq> []"
  "ends_with_success (step6_patch_match_stereo w) \<longleftrightarrow>
     fusion_started (step6_patch_match_stereo w) w \<and> returncode (stereo_fusion w) = 0 \<and> fused_ply_exists w"
  "fusion_started (step6_patch_match_stereo w) w \<and> \<not> (returncode (stereo_fusion w) = 0 \<and> fused_ply_exists w)
     \<longrightarrow> ends_with_error (step6_patch_match_stereo w)"
  using ends_run_cmd[of "[]"]
  by (auto simp: step6_eq fusion_started_def fuse_cmd_distinct ends_append step7_success step7_error
      simp del: append_Nil)

lemma fd_step7: "fusion_decides (step7_stereo_fusion w) w"
  using ends_run_cmd[of "[]"]
  by (auto simp: fusion_decides_def fusion_started_def step7_success simp del: append_Nil)
     (auto simp: step7_eq)

lemma fd_after:
  assumes "fusion_decides rest w" "fuse_cmd w \<notin> set (commands xs)"
  shows "fusion_decides (xs @ rest) w"
  using assms
  by (auto simp: fusion_decides_def fusion_started_def ends_with_success_def ends_with_error_def)

lemma fd_stop:
  assumes "fuse_cmd w \<notin> set (commands t)" "events t \<noteq> []" "\<not> ends_with_success t"
  shows "fusion_decides t w"
  using assms by (auto simp: fusion_decides_def fusion_started_def)

lemma fd_run_cmd_stop:
  assumes "cmd \<noteq> fuse_cmd w" "returncode proc \<noteq> 0"
  shows "fusion_decides (fst (run_cmd cmd ps pe nm proc)) w"
  using assms ends_run_cmd(1)[of "[]" cmd ps pe nm proc]
  by (intro fd_stop) auto

lemma fd_step:
  assumes "cmd \<noteq> fuse_cmd w" "fusion_decides rest w"
  shows "fusion_decides (fst (run_cmd cmd ps pe nm proc) @ (if returncode proc \<noteq> 0 then [] else rest)) w"
proof (cases "returncode proc \<noteq> 0")
  case True
  with fd_run_cmd_stop[OF assms(1) True] show ?thesis by simp
next
  case False
  with fd_after[OF assms(2), of "fst (run_cmd cmd ps pe nm proc)"] assms(1) show ?thesis by auto
qed

lemma fd_step6: "fusion_decides (step6_patch_match_stereo w) w"
  unfolding step6_eq by (intro fd_step fd_step7) (simp add: fuse_cmd_distinct[symmetric])

lemma fd_step5: "fusion_decides (step5_image_undistorter w m) w"
  unfolding step5_eq by (intro fd_step fd_step6) (simp add: fuse_cmd_distinct[symmetric])

lemma fd_converter: "fusion_decides (run_model_converter w m) w"
  unfolding run_model_converter_eq
  by (intro fd_after fd_step5) (simp add: fuse_cmd_distinct)

lemma fd_find_model_index: "fusion_decides (find_model_index w) w"
  unfolding find_model_index_eq
  by (cases "model_index_of (sparse_listing w)")
     (auto intro!: fd_stop fd_converter simp: ends_with_success_def)

lemma fd_step3: "fusion_decides (step3_mapper w) w"
  unfolding step3_eq by (intro fd_step fd_find_model_index) (simp add: fuse_cmd_distinct[symmetric])

lemma fd_step2: "fusion_decides (step2_matching w) w"
  unfolding step2_eq by (intro fd_step fd_step3) (simp add: fuse_cmd_distinct[symmetric])

lemma fd_step1: "fusion_decides (step1_features w) w"
  unfolding step1_eq by (intro fd_step fd_step2) (simp add: fuse_cmd_distinct[symmetric])

lemma fd_prepare: "fusion_decides (prepare_workspace w) w"
proof (cases "final_processed_dir w = None")
  case True
  then show ?thesis
    by (auto intro!: fd_stop simp: prepare_workspace_def ends_with_success_def)
next
  case False
  have "fusion_decides ([Yield [(''type'', Str ''status''), (''message'', Str ''Preparing COLMAP workspace...''),
            (''progress'', Num 22)]] @ step1_features w) w"
    by (intro fd_after fd_step1) simp
  with False show ?thesis by (auto simp: prepare_workspace_def)
qed

lemma fd_process_generator: "fusion_decides (process_generator w) w"
proof -
  let ?loop = "fst (preprocess_loop w (length (image_paths w)) 1 (image_paths w))"
  consider (empty) "image_paths w = []"
    | (fails) "image_paths w \<noteq> []" "\<exists>p \<in> set (image_paths w). preprocess_fails w p"
    | (ok) "image_paths w \<noteq> []" "\<not> (\<exists>p \<in> set (image_paths w). preprocess_fails w p)"
    by blast
  then show ?thesis
  proof cases
    case empty
    then show ?thesis
      by (auto intro!: fd_stop simp: process_generator_eq ends_with_success_def)
  next
    case fails
    then have r: "snd (preprocess_loop w (length (image_paths w)) 1 (image_paths w))"
      by (simp add: preprocess_loop_returned)
    from preprocess_loop_last_error[OF r] fails show ?thesis
      by (auto intro!: fd_stop simp: process_generator_eq ends_with_success_def type_is_error_def)
  next
    case ok
    have "fusion_decides
       (([Yield [(''type'', Str ''status''), (''message'', Str ''Run queued''), (''progress'', Num 0)],
          Yield [(''type'', Str ''status''), (''message'', Str ''Starting preprocessing...''),
                 (''progress'', Num 2)]] @ ?loop @
          Yield [(''type'', Str ''status''), (''message'', Str ''Preprocessing complete''),
                     (''progress'', Num 20)] # stage_events w) @ prepare_workspace w) w"
      by (intro fd_after fd_prepare) simp
    with ok show ?thesis by (simp add: process_generator_eq)
  qed
qed

text \<open>
  Claim C4. A run ends with the success event exactly when the fusion command was started,
  exited with code 0 and \<^verbatim>\<open>dense/fused.ply\<close> exists afterwards. When the fusion command
  exits with code 0 and the file is absent, the run does not end with success: its last
  event is the error event \<^verbatim>\<open>fused.ply not found after fusion\<close>.
\<close>

theorem success_requires_fusion_and_artifact:
  "(ends_with_success (process_generator w) \<longleftrightarrow>
      fusion_started (process_generator w) w \<and> returncode (stereo_fusion w) = 0 \<and> fused_ply_exists w) \<and>
   (fusion_started (process_generator w) w \<and> returncode (stereo_fusion w) = 0 \<and> \<not> fused_ply_exists w \<longrightarrow>
      \<not> ends_with_success (process_generator w) \<and>
      last (events (process_generator w)) =
        [(''type'', Str ''error''), (''message'', Str ''fused.ply not found after fusion''),
         (''progress'', Num 95)])"
  using fd_process_generator[of w] by (auto simp: fusion_decides_def)

theorem success_requires_fusion_and_artifact_witness:
  "fusion_started (process_generator happy_world) happy_world \<and>
   returncode (stereo_fusion happy_world) = 0 \<and> fused_ply_exists happy_world \<and>
   ends_with_success (process_generator happy_world) \<and>
   fusion_started (process_generator missing_artifact_world) missing_artifact_world \<and>
   returncode (stereo_fusion missing_artifact_world) = 0 \<and>
   \<not> fused_ply_exists missing_artifact_world \<and>
   \<not> ends_with_success (process_generator missing_artifact_world) \<and>
   last (events (process_generator missing_artifact_world)) =
     [(''type'', Str ''error''), (''message'', Str ''fused.ply not found after fusion''),
      (''progress'', Num 95)]"
proof -
  have a: "fusion_started (process_generator happy_world) happy_world" by code_simp
  have b: "returncode (stereo_fusion happy_world) = 0" by code_simp
  have c: "fused_ply_exists happy_world" by code_simp
  have d: "fusion_started (process_generator missing_artifact_world) missing_artifact_world"
    by code_simp
  have e: "returncode (stereo_fusion missing_artifact_world) = 0" by code_simp
  have f: "\<not> fused_ply_exists missing_artifact_world" by code_simp
  show ?thesis
    using success_requires_fusion_and_artifact[of happy_world]
      success_requires_fusion_and_artifact[of missing_artifact_world] a b c d e f
    by simp
qed

subsection \<open>The precondition on the final stage folder\<close>

lemma events_stage_events_nonempty [simp]: "events (stage_events w) \<noteq> []"
  by (simp add: stage_events_def PREPROCESS_STAGES_def)

text \<open>
  Claim C5, amended. Before any external command is started the generator checks that
  \<^verbatim>\<open>out/final_processed\<close> exists. When it does not exist no external command is started and
  the run ends with an error event; when preprocessing has completed, that event is
  \<^verbatim>\<open>final_processed folder missing\<close>. Whether the folder is empty is not checked.
\<close>

theorem missing_final_processed_stops_run:
  assumes "final_processed_dir w = None"
  shows "commands (process_generator w) = [] \<and> ends_with_error (process_generator w) \<and>
         (image_paths w \<noteq> [] \<and> (\<forall>p \<in> set (image_paths w). \<not> preprocess_fails w p) \<longrightarrow>
            last (events (process_generator w)) =
              [(''type'', Str ''error''), (''message'', Str ''final_processed folder missing''),
               (''progress'', Num 0)])"
proof -
  let ?loop = "preprocess_loop w (length (image_paths w)) 1 (image_paths w)"
  have c: "commands (process_generator w) = []"
    using assms by (simp add: process_generator_eq prepare_workspace_def)
  have e: "ends_with_error (process_generator w)"
  proof (cases "image_paths w \<noteq> [] \<and> (\<exists>p \<in> set (image_paths w). preprocess_fails w p)")
    case True
    then have "snd ?loop" by (simp add: preprocess_loop_returned)
    from preprocess_loop_last_error[OF this] True show ?thesis
      by (simp add: process_generator_eq ends_with_error_def)
  next
    case False
    with assms show ?thesis
      by (auto simp: process_generator_eq prepare_workspace_def ends_with_error_def type_is_error_def)
  qed
  have l: "last (events (process_generator w)) =
              [(''type'', Str ''error''), (''message'', Str ''final_processed folder missing''),
               (''progress'', Num 0)]"
    if "image_paths w \<noteq> []" "\<forall>p \<in> set (image_paths w). \<not> preprocess_fails w p"
    using that assms by (simp add: process_generator_eq prepare_workspace_def)
  from c e l show ?thesis by blast
qed

theorem missing_final_processed_stops_run_witness:
  "final_processed_dir no_final_world = None \<and>
   commands (process_generator no_final_world) = [] \<and>
   ends_with_error (process_generator no_final_world)"
proof -
  have "final_processed_dir no_final_world = None" by (simp add: no_final_world_def)
  from missing_final_processed_stops_run[OF this] this show ?thesis by simp
qed

theorem empty_final_processed_counterexample:
  "final_processed_dir empty_final_world = Some [] \<and>
   hd (commands (process_generator empty_final_world)) = fe_cmd empty_final_world \<and>
   length (commands (process_generator empty_final_world)) = 7 \<and>
   ends_with_success (process_generator empty_final_world)"
  by code_simp

subsection \<open>Finding the sparse model\<close>

lemma process_generator_mapped:
  assumes "mapping_succeeded w"
  shows "\<exists>pre. commands pre = [fe_cmd w, em_cmd w, map_cmd w] \<and>
           process_generator w = pre @ find_model_index w"
proof -
  let ?loop = "fst (preprocess_loop w (length (image_paths w)) 1 (image_paths w))"
  let ?pre = "[Yield [(''type'', Str ''status''), (''message'', Str ''Run queued''), (''progress'', Num 0)],
      Yield [(''type'', Str ''status''), (''message'', Str ''Starting preprocessing...''),
             (''progress'', Num 2)]] @ ?loop @
      Yield [(''type'', Str ''status''), (''message'', Str ''Preprocessing complete''),
                     (''progress'', Num 20)] # stage_events w @
      Yield [(''type'', Str ''status''), (''message'', Str ''Preparing COLMAP workspace...''),
            (''progress'', Num 22)] #
      fst (run_cmd (fe_cmd w) (AInt 22) (AInt 30) (AStr (COLMAP_STAGES ! 0)) (feature_extractor w)) @
      fst (run_cmd (em_cmd w) (AInt 30) (AInt 40) (AStr (COLMAP_STAGES ! 1)) (exhaustive_matcher w)) @
      fst (run_cmd (map_cmd w) (AInt 40) (AInt 55) (AStr (COLMAP_STAGES ! 2)) (mapper w))"
  have "commands ?pre = [fe_cmd w, em_cmd w, map_cmd w]" by simp
  moreover have "process_generator w = ?pre @ find_model_index w"
    using assms
    by (auto simp: mapping_succeeded_def process_generator_eq prepare_workspace_def step1_eq step2_eq step3_eq)
  ultimately show ?thesis by blast
qed

lemma commands_run_model_converter:
  "\<exists>rest. commands (run_model_converter w m) = converter_cmd w m # undist_cmd w m # rest"
  by (simp add: run_model_converter_eq step5_eq)

text \<open>
  Claim C3, amended. After the sparse mapping has succeeded, the model the generator uses
  is the first directory among the entries of the sparse-model root, in the order the
  directory is enumerated; when no entry is a directory it is the entry named \<^verbatim>\<open>0\<close>, if
  that path exists; the converter and the undistorter are then started on it. When there
  is neither, the run ends with the error event \<^verbatim>\<open>No sparse model found after mapper\<close> at
  progress 55 and no command is started after the mapper.
\<close>

theorem model_discovery:
  assumes "mapping_succeeded w"
  shows "(\<forall>m. model_index_of (sparse_listing w) = Some m \<longrightarrow>
            take 5 (commands (process_generator w)) =
              [fe_cmd w, em_cmd w, map_cmd w, converter_cmd w m, undist_cmd w m]) \<and>
         (model_index_of (sparse_listing w) = None \<longrightarrow>
            commands (process_generator w) = [fe_cmd w, em_cmd w, map_cmd w] \<and>
            last (events (process_generator w)) =
              [(''type'', Str ''error''), (''message'', Str ''No sparse model found after mapper''),
               (''progress'', Num 55)])"
proof -
  from process_generator_mapped[OF assms] obtain pre
    where pre: "commands pre = [fe_cmd w, em_cmd w, map_cmd w]"
      "process_generator w = pre @ find_model_index w" by blast
  show ?thesis
  proof (cases "model_index_of (sparse_listing w)")
    case None
    with pre show ?thesis by (simp add: find_model_index_eq)
  next
    case (Some m)
    from commands_run_model_converter[of w m] obtain rest
      where "commands (run_model_converter w m) = converter_cmd w m # undist_cmd w m # rest" by blast
    with Some pre show ?thesis by (simp add: find_model_index_eq)
  qed
qed

theorem model_discovery_witness:
  "mapping_succeeded happy_world \<and>
   model_index_of (sparse_listing happy_world) = Some ''1'' \<and>
   take 5 (commands (process_generator happy_world)) =
     [fe_cmd happy_world, em_cmd happy_world, map_cmd happy_world,
      converter_cmd happy_world ''1'', undist_cmd happy_world ''1''] \<and>
   mapping_succeeded no_model_world \<and>
   model_index_of (sparse_listing no_model_world) = None \<and>
   commands (process_generator no_model_world) =
     [fe_cmd no_model_world, em_cmd no_model_world, map_cmd no_model_world] \<and>
   last (events (process_generator no_model_world)) =
     [(''type'', Str ''error''), (''message'', Str ''No sparse model found after mapper''),
      (''progress'', Num 55)]"
proof -
  have a: "mapping_succeeded happy_world" by code_simp
  have b: "model_index_of (sparse_listing happy_world) = Some ''1''" by code_simp
  have c: "mapping_succeeded no_model_world" by code_simp
  have d: "model_index_of (sparse_listing no_model_world) = None" by code_simp
  show ?thesis
    using model_discovery[OF a] model_discovery[OF c] a b c d by simp
qed

theorem first_subdirectory_counterexample:
  "mapping_succeeded reversed_listing_world \<and>
   (''1'', Dir) \<in> set (sparse_listing reversed_listing_world) \<and>
   (''2'', Dir) \<in> set (sparse_listing reversed_listing_world) \<and>
   commands (process_generator reversed_listing_world) ! 3 = converter_cmd reversed_listing_world ''2'' \<and>
   converter_cmd reversed_listing_world ''2'' \<noteq> converter_cmd reversed_listing_world ''1''"
  by code_simp

subsection \<open>The first image that fails\<close>

lemma events_stage_events_group:
  "stage_events w \<noteq> []"
  by (simp add: stage_events_def PREPROCESS_STAGES_def)

lemma preprocess_loop_images:
  "List.map_filter (\<lambda>ev. map_of ev ''image'') (events (fst (preprocess_loop w n i ps))) =
     map (\<lambda>p. Str (''/runs/'' @ run_id w @ ''/out/final_processed/'' @ fst p))
       (takeWhile (\<lambda>p. \<not> preprocess_fails w p) ps)"
  by (induction w n i ps rule: preprocess_loop.induct)
     (auto simp: List.map_filter_simps split: sum.splits prod.splits)

text \<open>
  Claim C6. In a run whose \<open>k\<close>-th image, in processing order, is the first on which
  preprocessing fails, the events are the two opening status events, \<open>k - 1\<close> per-image
  events, those of the first \<open>k - 1\<close> images in order, and one error event, which is the
  last event. No event is a stage-done event, no event belongs to a group, and no external
  command is started.
\<close>

theorem first_failure_abandons_run:
  assumes "1 \<le> k" and "k \<le> length (image_paths w)"
    and "\<forall>j < k - 1. \<not> preprocess_fails w (image_paths w ! j)"
    and "preprocess_fails w (image_paths w ! (k - 1))"
  shows "map (\<lambda>ev. map_of ev ''type'') (events (process_generator w)) =
           [Some (Str ''status''), Some (Str ''status'')] @
           replicate (k - 1) (Some (Str ''preprocess_image'')) @ [Some (Str ''error'')] \<and>
         List.map_filter (\<lambda>ev. map_of ev ''image'') (events (process_generator w)) =
           map (\<lambda>p. Str (''/runs/'' @ run_id w @ ''/out/final_processed/'' @ fst p))
             (take (k - 1) (image_paths w)) \<and>
         (\<forall>ev \<in> set (events (process_generator w)). map_of ev ''group'' = None) \<and>
         commands (process_generator w) = []"
proof -
  let ?ps = "image_paths w"
  let ?loop = "fst (preprocess_loop w (length ?ps) 1 ?ps)"
  from assms have lt: "k - 1 < length ?ps" by simp
  have tw: "takeWhile (\<lambda>p. \<not> preprocess_fails w p) ?ps = take (k - 1) ?ps"
    using assms(3,4) by (intro takeWhile_eq_take_P_nth) auto
  have ex: "\<exists>p \<in> set ?ps. preprocess_fails w p"
    using assms(4) lt nth_mem by blast
  have ne: "?ps \<noteq> []" using lt by auto
  have pg: "process_generator w =
     [Yield [(''type'', Str ''status''), (''message'', Str ''Run queued''), (''progress'', Num 0)],
      Yield [(''type'', Str ''status''), (''message'', Str ''Starting preprocessing...''),
             (''progress'', Num 2)]] @ ?loop"
    using ex ne by (simp add: process_generator_eq)
  have len: "length (take (k - 1) ?ps) = k - 1" using lt by simp
  have t: "map (\<lambda>ev. map_of ev ''type'') (events (process_generator w)) =
           [Some (Str ''status''), Some (Str ''status'')] @
           replicate (k - 1) (Some (Str ''preprocess_image'')) @ [Some (Str ''error'')]"
    using ex lt by (simp add: pg preprocess_loop_types tw min_def)
  have i: "List.map_filter (\<lambda>ev. map_of ev ''image'') (events (process_generator w)) =
           map (\<lambda>p. Str (''/runs/'' @ run_id w @ ''/out/final_processed/'' @ fst p))
             (take (k - 1) (image_paths w))"
    using preprocess_loop_images[of w "length ?ps" 1 ?ps]
    by (simp add: pg tw List.map_filter_simps)
  have g: "\<forall>ev \<in> set (events (process_generator w)). map_of ev ''group'' = None"
    using preprocess_loop_no_group[of _ w "length ?ps" 1 ?ps] by (auto simp: pg)
  have c: "commands (process_generator w) = []" by (simp add: pg)
  from t i g c show ?thesis by blast
qed

theorem first_failure_abandons_run_witness:
  "(1::nat) \<le> 2 \<and> 2 \<le> length (image_paths second_fails_world) \<and>
   \<not> preprocess_fails second_fails_world (image_paths second_fails_world ! 0) \<and>
   preprocess_fails second_fails_world (image_paths second_fails_world ! 1) \<and>
   map (\<lambda>ev. map_of ev ''type'') (events (process_generator second_fails_world)) =
     [Some (Str ''status''), Some (Str ''status''), Some (Str ''preprocess_image''), Some (Str ''error'')] \<and>
   List.map_filter (\<lambda>ev. map_of ev ''image'') (events (process_generator second_fails_world)) =
     [Str ''/runs/ab12cd34/out/final_processed/a.jpg''] \<and>
   commands (process_generator second_fails_world) = []"
proof -
  have ip: "image_paths second_fails_world =
      [(''a.jpg'', rgb_file), (''b.png'', corrupt_file), (''c.jpeg'', rgb_file)]"
    by code_simp
  have a: "(1::nat) \<le> 2" by simp
  have b: "2 \<le> length (image_paths second_fails_world)" by (simp add: ip)
  have ok: "\<not> preprocess_fails second_fails_world (''a.jpg'', rgb_file)" by code_simp
  have c: "\<forall>j < 2 - 1. \<not> preprocess_fails second_fails_world (image_paths second_fails_world ! j)"
    using ok by (simp add: ip)
  have bad: "preprocess_fails second_fails_world (''b.png'', corrupt_file)" by code_simp
  have d: "preprocess_fails second_fails_world (image_paths second_fails_world ! (2 - 1))"
    using bad by (simp add: ip)
  have r: "run_id second_fails_world = ''ab12cd34''"
    by (simp add: second_fails_world_def happy_world_def)
  show ?thesis
    using first_failure_abandons_run[OF a b c d] a b c d
    by (simp add: ip r numeral_2_eq_2)
qed

subsection \<open>Progress\<close>

lemma progress_values_append [simp]:
  "progress_values (xs @ ys) = progress_values xs @ progress_values ys"
  by (simp add: progress_values_def List.map_filter_def)

lemma progress_track_append [simp]:
  "progress_track (xs @ ys) = progress_track xs @ progress_track ys"
  by (simp add: progress_track_def)

lemma progress_track_Nil [simp]: "progress_track [] = []"
  by (simp add: progress_track_def progress_values_def List.map_filter_simps)

lemma progress_track_Cons:
  "progress_track (ev # evs) =
     (if zero_error ev then []
      else case numeric_progress ev of Some n \<Rightarrow> [n] | None \<Rightarrow> []) @ progress_track evs"
  by (simp add: progress_track_def progress_values_def List.map_filter_simps split: option.splits)

lemma rising_Nil [simp]: "rising lo hi []"
  by (simp add: rising_def)

lemma rising_append:
  assumes "rising a b xs" "rising b c ys" "a \<le> b" "b \<le> c"
  shows "rising a c (xs @ ys)"
  using assms by (fastforce simp: rising_def sorted_append)

lemma rising_mono: "rising a b xs \<Longrightarrow> a' \<le> a \<Longrightarrow> b \<le> b' \<Longrightarrow> rising a' b' xs"
  by (fastforce simp: rising_def)

lemma rising_single:
  "numeric_progress ev = Some n \<Longrightarrow> lo \<le> n \<Longrightarrow> n \<le> hi \<Longrightarrow> rising lo hi [ev]"
  by (simp add: rising_def progress_track_Cons)

lemma rising_skipped:
  "zero_error ev \<or> numeric_progress ev = None \<Longrightarrow> rising lo hi [ev]"
  by (auto simp: rising_def progress_track_Cons)

lemma rising_Cons:
  assumes "numeric_progress ev = Some a" "rising b c evs" "a \<le> b" "b \<le> c"
  shows "rising a c (ev # evs)"
proof -
  have "rising a b [ev]" using assms(3) by (intro rising_single[OF assms(1)]) simp_all
  from rising_append[OF this assms(2,3,4)] show ?thesis by simp
qed

lemma track_logs:
  "progress_track (map (\<lambda>l. [(''type'', Str ''log''), (''message'', Str (f l)), (''progress'', Num a)]) ls) =
     replicate (length ls) a"
  by (induction ls)
     (simp_all add: progress_track_Cons zero_error_def type_is_error_def numeric_progress_def)

lemma track_logs_string:
  "progress_track (map (\<lambda>l. [(''type'', Str ''log''), (''message'', Str (f l)), (''progress'', Str s)]) ls) = []"
  by (induction ls)
     (simp_all add: progress_track_Cons zero_error_def type_is_error_def numeric_progress_def)

lemma rising_run_cmd:
  assumes "a \<le> b"
  shows "rising a b (events (fst (run_cmd cmd (AInt a) (AInt b) nm proc)))"
  using assms
  by (auto simp: rising_def run_cmd_def Let_def read_loop_captured track_logs progress_track_Cons
      zero_error_def type_is_error_def numeric_progress_def sorted_append)

lemma rising_converter:
  "rising 55 55 (events (fst (run_cmd cmd (AStr ''model_converter'') (AInt 55) (AInt 58) proc)))"
  by (auto simp: rising_def run_cmd_def Let_def read_loop_captured track_logs_string progress_track_Cons
      zero_error_def type_is_error_def numeric_progress_def sorted_append)

lemma rising_step:
  assumes "a \<le> b" "b \<le> c" "rising b c (events rest)"
  shows "rising a c (events (fst (run_cmd cmd (AInt a) (AInt b) nm proc) @
            (if returncode proc \<noteq> 0 then [] else rest)))"
proof (cases "returncode proc \<noteq> 0")
  case True
  with rising_mono[OF rising_run_cmd[OF assms(1)], of a c] assms show ?thesis by simp
next
  case False
  with rising_append[OF rising_run_cmd[OF assms(1)] assms(3) assms(1,2)] show ?thesis by simp
qed

lemma rising_step7: "rising 85 100 (events (step7_stereo_fusion w))"
proof -
  have "rising 95 100 (events (if fused_ply_exists w then
        [Yield [(''type'', Str ''done''), (''message'', Str ''Reconstruction complete''),
                (''progress'', Num 100),
                (''fused_ply'', Str (''/runs/'' @ run_id w @ ''/out/dense/fused.ply''))]]
      else
        [Yield [(''type'', Str ''error''), (''message'', Str ''fused.ply not found after fusion''),
                (''progress'', Num 95)]]))"
    by (auto intro!: rising_single simp: numeric_progress_def)
  from rising_step[OF _ _ this, of 85] show ?thesis
    by (simp add: step7_eq split: if_splits)
qed

lemma rising_step6: "rising 65 100 (events (step6_patch_match_stereo w))"
  unfolding step6_eq using rising_mono[OF rising_step7, of 85 100]
  by (intro rising_step) simp_all

lemma rising_step5: "rising 58 100 (events (step5_image_undistorter w m))"
  unfolding step5_eq using rising_mono[OF rising_step6, of 65 100]
  by (intro rising_step) simp_all

lemma rising_run_model_converter: "rising 55 100 (events (run_model_converter w m))"
  unfolding run_model_converter_eq events_append
  using rising_mono[OF rising_step5, of 55 100]
  by (intro rising_append[OF rising_converter]) simp_all

lemma rising_find_model_index: "rising 55 100 (events (find_model_index w))"
  unfolding find_model_index_eq
  by (cases "model_index_of (sparse_listing w)")
     (auto intro!: rising_single rising_run_model_converter simp: numeric_progress_def)

lemma rising_step3: "rising 40 100 (events (step3_mapper w))"
  unfolding step3_eq using rising_find_model_index
  by (intro rising_step) simp_all

lemma rising_step2: "rising 30 100 (events (step2_matching w))"
  unfolding step2_eq using rising_mono[OF rising_step3, of 40 100]
  by (intro rising_step) simp_all

lemma rising_step1: "rising 22 100 (events (step1_features w))"
  unfolding step1_eq using rising_mono[OF rising_step2, of 30 100]
  by (intro rising_step) simp_all

lemma rising_prepare: "rising 22 100 (events (prepare_workspace w))"
proof (cases "final_processed_dir w = None")
  case True
  then show ?thesis
    by (simp add: prepare_workspace_def rising_def progress_track_Cons zero_error_def
        type_is_error_def numeric_progress_def)
next
  case False
  have "rising 22 100 ([(''type'', Str ''status''), (''message'', Str ''Preparing COLMAP workspace...''),
            (''progress'', Num 22)] # events (step1_features w))"
    by (intro rising_Cons[where b = 22] rising_step1) (simp_all add: numeric_progress_def)
  with False show ?thesis by (auto simp: prepare_workspace_def)
qed

lemma rising_stage_events: "rising 20 20 (events (stage_events w))"
  by (simp add: stage_events_def PREPROCESS_STAGES_def rising_def progress_track_Cons zero_error_def
      type_is_error_def numeric_progress_def)

lemma track_preprocess_loop:
  "progress_track (events (fst (preprocess_loop w n i ps))) =
     map (\<lambda>j. progress_of j n) [i ..< i + length (takeWhile (\<lambda>p. \<not> preprocess_fails w p) ps)]"
proof (induction w n i ps rule: preprocess_loop.induct)
  case (1 w n i)
  then show ?case by simp
next
  case (2 w n i name f rest)
  show ?case
  proof (cases "preprocess_and_save_all_stages f name (out_root w) 2048")
    case (Inl e)
    then show ?thesis
      by (simp add: progress_track_Cons zero_error_def type_is_error_def)
  next
    case (Inr written)
    let ?k = "length (takeWhile (\<lambda>p. \<not> preprocess_fails w p) rest)"
    obtain out r where pl: "preprocess_loop w n (Suc i) rest = (out, r)" by force
    have ih: "progress_track (events out) = map (\<lambda>j. progress_of j n) [Suc i ..< Suc (i + ?k)]"
      using 2[OF Inr] pl by (simp del: upt_Suc)
    have u: "[i ..< Suc (i + ?k)] = i # [Suc i ..< Suc (i + ?k)]"
      by (rule upt_conv_Cons) simp
    have ev: "progress_track
        ([(''type'', Str ''preprocess_image''),
          (''message'', Str (''Preprocessed '' @ name @ '' ('' @ str_nat i @ ''/'' @ str_nat n @ '')'')),
          (''progress'', Num (progress_of i n)),
          (''image'', Str (''/runs/'' @ run_id w @ ''/out/final_processed/'' @ name))] # events out) =
        progress_of i n # progress_track (events out)"
      by (simp add: progress_track_Cons zero_error_def type_is_error_def numeric_progress_def)
    have "progress_track (events (fst (preprocess_loop w n i ((name, f) # rest)))) =
        progress_of i n # progress_track (events out)"
      using ev by (simp add: Inr pl progress_of_def)
    also have "\<dots> = map (\<lambda>j. progress_of j n) [i ..< Suc (i + ?k)]"
      by (simp only: ih u list.map)
    finally have fin: "progress_track (events (fst (preprocess_loop w n i ((name, f) # rest)))) =
        map (\<lambda>j. progress_of j n) [i ..< Suc (i + ?k)]" .
    have tk: "i + length (takeWhile (\<lambda>p. \<not> preprocess_fails w p) ((name, f) # rest)) = Suc (i + ?k)"
      using Inr by simp
    show ?thesis unfolding tk by (rule fin)
  qed
qed

lemma sorted_progress_upt: "sorted (map (\<lambda>j. progress_of j n) [a ..< b])"
  unfolding sorted_map
  by (rule sorted_wrt_mono_rel[OF _ sorted_wrt_upt]) (simp add: progress_of_mono)

lemma rising_preprocess_loop:
  assumes "0 < n" and that: "length ps \<le> n"
  shows "rising 2 20 (events (fst (preprocess_loop w n 1 ps)))"
proof -
  let ?k = "length (takeWhile (\<lambda>p. \<not> preprocess_fails w p) ps)"
  have k: "?k \<le> n" using that length_takeWhile_le[of _ ps] by (meson order_trans)
  have s: "sorted (map (\<lambda>j. progress_of j n) [1 ..< 1 + ?k])"
    by (rule sorted_progress_upt)
  have b: "2 \<le> progress_of j n \<and> progress_of j n \<le> 20" if "j \<in> set [1 ..< 1 + ?k]" for j
    using that k progress_of_bounds[of j n] assms by auto
  show ?thesis
    unfolding rising_def track_preprocess_loop using s b by auto
qed

lemma rising_process_generator: "rising 0 100 (events (process_generator w))"
proof -
  let ?ps = "image_paths w"
  let ?loop = "fst (preprocess_loop w (length ?ps) 1 ?ps)"
  have head: "rising 0 2
     [[(''type'', Str ''status''), (''message'', Str ''Run queued''), (''progress'', Num 0)],
      [(''type'', Str ''status''), (''message'', Str ''Starting preprocessing...''), (''progress'', Num 2)]]"
    by (simp add: rising_def progress_track_Cons zero_error_def type_is_error_def numeric_progress_def)
  show ?thesis
  proof (cases "?ps = []")
    case True
    have "rising 2 100 [[(''type'', Str ''error''), (''message'', Str ''No images found''), (''progress'', Num 0)]]"
      by (intro rising_skipped) (simp add: zero_error_def type_is_error_def)
    from rising_append[OF head this] True show ?thesis
      by (simp add: process_generator_eq)
  next
    case False
    then have n: "0 < length ?ps" by simp
    have loop: "rising 2 20 (events ?loop)"
      by (rule rising_preprocess_loop[OF n]) simp
    have rest: "rising 20 100 (events (Yield [(''type'', Str ''status''), (''message'', Str ''Preprocessing complete''),
                     (''progress'', Num 20)] # stage_events w @ prepare_workspace w))"
    proof -
      have "rising 20 100 (events (stage_events w) @ events (prepare_workspace w))"
        using rising_append[OF rising_stage_events rising_mono[OF rising_prepare, of 20 100]] by simp
      then have "rising 20 100 ([(''type'', Str ''status''), (''message'', Str ''Preprocessing complete''),
                     (''progress'', Num 20)] # (events (stage_events w) @ events (prepare_workspace w)))"
        by (intro rising_Cons[where b = 20]) (simp_all add: numeric_progress_def)
      then show ?thesis by simp
    qed
    have tail: "rising 2 100 (events (?loop @
        (if \<exists>p \<in> set ?ps. preprocess_fails w p then []
         else Yield [(''type'', Str ''status''), (''message'', Str ''Preprocessing complete''),
                     (''progress'', Num 20)] # stage_events w @ prepare_workspace w)))"
    proof (cases "\<exists>p \<in> set ?ps. preprocess_fails w p")
      case True
      with rising_mono[OF loop, of 2 100] show ?thesis by simp
    next
      case False
      with rising_append[OF loop rest] show ?thesis by simp
    qed
    from rising_append[OF head tail] False show ?thesis
      by (simp add: process_generator_eq)
  qed
qed

lemma progress_values_subset:
  "set (progress_values evs) \<subseteq> set (progress_track evs) \<union> {0}"
proof (induction evs)
  case Nil
  then show ?case by (simp add: progress_values_def List.map_filter_simps)
next
  case (Cons ev evs)
  have "progress_values (ev # evs) =
      (case numeric_progress ev of Some n \<Rightarrow> [n] | None \<Rightarrow> []) @ progress_values evs"
    by (simp add: progress_values_def List.map_filter_simps split: option.splits)
  with Cons show ?case
    by (auto simp: progress_track_Cons zero_error_def numeric_progress_def split: option.splits)
qed

text \<open>
  Claim C2, amended. In every run the progress values that are numbers lie in the interval
  from 0 to 100, and they never decrease along the stream once the error events that
  carry progress 0 are left out (those of an empty image set, of a failed image and of a
  missing final stage folder). The progress carried by the announcement, the log lines and
  the error of the model conversion command is not a number and is left out of the
  statement.
\<close>

theorem progress_nondecreasing_apart_from_zero_errors:
  "sorted (progress_track (events (process_generator w))) \<and>
   (\<forall>n \<in> set (progress_values (events (process_generator w))). 0 \<le> n \<and> n \<le> 100)"
  using rising_process_generator[of w] progress_values_subset[of "events (process_generator w)"]
  by (auto simp: rising_def)

theorem progress_nondecreasing_apart_from_zero_errors_witness:
  "sorted (progress_track (events (process_generator happy_world))) \<and>
   100 \<in> set (progress_values (events (process_generator happy_world))) \<and>
   (0::int) \<le> 100 \<and> (100::int) \<le> 100 \<and>
   progress_track (events (process_generator happy_world)) =
     [0, 2, 11, 20, 20, 20, 20, 20, 20, 20, 20, 20, 20, 22, 22, 30, 30, 30, 40,
      40, 40, 55, 55, 55, 55, 58, 65, 65, 65, 85, 85, 85, 95, 95, 100]"
proof -
  have m: "100 \<in> set (progress_values (events (process_generator happy_world)))" by code_simp
  have t: "progress_track (events (process_generator happy_world)) =
     [0, 2, 11, 20, 20, 20, 20, 20, 20, 20, 20, 20, 20, 22, 22, 30, 30, 30, 40,
      40, 40, 55, 55, 55, 55, 58, 65, 65, 65, 85, 85, 85, 95, 95, 100]" by code_simp
  from progress_nondecreasing_apart_from_zero_errors[of happy_world]
  have "sorted (progress_track (events (process_generator happy_world)))" by blast
  with m t show ?thesis by simp
qed

theorem progress_drops_to_zero_counterexample:
  "map (\<lambda>ev. map_of ev ''progress'') (events (process_generator no_images_world)) =
     [Some (Num 0), Some (Num 2), Some (Num 0)] \<and>
   \<not> sorted (progress_values (events (process_generator no_images_world)))"
  by code_simp

subsection \<open>A failure of the model converter\<close>

text \<open>
  Claim C1 at a run in which only the model conversion command fails. The error event of
  the converter is not the last event: the undistorter, the dense stereo and the fusion
  still run, and the stream ends with the success event, so it holds two terminal events.
\<close>

theorem converter_error_is_not_terminal:
  "returncode (model_converter converter_fails_world) = 3 \<and>
   map (\<lambda>ev. map_of ev ''type'') (filter is_terminal (events (process_generator converter_fails_world))) =
     [Some (Str ''error''), Some (Str ''done'')] \<and>
   map (\<lambda>ev. map_of ev ''type'')
     (dropWhile (\<lambda>ev. \<not> type_is_error ev) (events (process_generator converter_fails_world))) =
     [Some (Str ''error''), Some (Str ''status''), Some (Str ''stage_done''), Some (Str ''status''),
      Some (Str ''status''), Some (Str ''stage_done''), Some (Str ''status''),
      Some (Str ''status''), Some (Str ''stage_done''), Some (Str ''status''), Some (Str ''done'')] \<and>
   map (\<lambda>cmd. cmd ! 1) (commands (process_generator converter_fails_world)) =
     [''feature_extractor'', ''exhaustive_matcher'', ''mapper'', ''model_converter'',
      ''image_undistorter'', ''patch_match_stereo'', ''stereo_fusion'']"
  by code_simp

subsection \<open>The reference of a per-image event\<close>

lemma serve_run_out_reference:
  "serve_run_out w (''/runs/'' @ run_id w @ ''/out/final_processed/'' @ name) =
     Some (pjoin (pjoin (out_root w) ''final_processed'') name)"
proof -
  have "''/runs/'' @ run_id w @ ''/out/final_processed/'' @ name =
        (''/runs/'' @ run_id w @ ''/out/'') @ (''final_processed/'' @ name)" by simp
  then show ?thesis
    unfolding serve_run_out_def Let_def by (simp add: pjoin_def del: append_assoc)
qed

lemma final_write:
  assumes "preprocess_and_save_all_stages f name out_dir max_size = Inr written"
  shows "wr_path (last written) = pjoin (pjoin out_dir ''final_processed'') (jpeg_name name)"
  using assms
  by (auto simp: preprocess_and_save_all_stages_def Let_def wr_path_def save_image_def colour_def
      jpeg_name_def split: sum.splits)

lemma jpeg_name_changes:
  assumes "name \<noteq> []" "lower (suffix_of name) \<notin> set [''.jpg'', ''.jpeg'']"
  shows "jpeg_name name \<noteq> name"
proof
  assume "jpeg_name name = name"
  with assms(2) have "with_suffix name ''.jpg'' = name" by (simp add: jpeg_name_def)
  with suffix_of_with_suffix_jpg[OF assms(1)] have "suffix_of name = ''.jpg''" by simp
  with assms(2) show False by simp
qed

lemma reference_of_non_jpeg_is_not_the_final_write:
  assumes "preprocess_and_save_all_stages f name (out_root w) 2048 = Inr written"
    and "name \<noteq> []" and "lower (suffix_of name) \<notin> set [''.jpg'', ''.jpeg'']"
  shows "serve_run_out w (''/runs/'' @ run_id w @ ''/out/final_processed/'' @ name) \<noteq>
           Some (wr_path (last written))"
  unfolding serve_run_out_reference final_write[OF assms(1)]
  using jpeg_name_changes[OF assms(2,3)] by (simp add: pjoin_def)

lemma reference_of_jpeg_is_the_final_write:
  assumes "preprocess_and_save_all_stages f name (out_root w) 2048 = Inr written"
    and "lower (suffix_of name) \<in> set [''.jpg'', ''.jpeg'']"
  shows "serve_run_out w (''/runs/'' @ run_id w @ ''/out/final_processed/'' @ name) =
           Some (wr_path (last written))"
  unfolding serve_run_out_reference final_write[OF assms(1)]
  using assms(2) by (simp add: jpeg_name_def)

text \<open>
  Claim C7 at a run with the images \<^verbatim>\<open>a.jpg\<close> and \<^verbatim>\<open>b.png\<close>. Both images are
  preprocessed, with progress 11 and 20. The event of \<^verbatim>\<open>b.png\<close> refers to
  \<^verbatim>\<open>final_processed/b.png\<close>, which the route serves from a file of that name, while the
  final stage of \<^verbatim>\<open>b.png\<close> was written to \<^verbatim>\<open>final_processed/b.jpg\<close>: no write of the
  preprocessing has the path the reference resolves to.
\<close>

theorem png_reference_does_not_resolve:
  "map (\<lambda>ev. (map_of ev ''image'', map_of ev ''progress''))
     (filter (\<lambda>ev. map_of ev ''type'' = Some (Str ''preprocess_image''))
        (events (process_generator happy_world))) =
     [(Some (Str ''/runs/ab12cd34/out/final_processed/a.jpg''), Some (Num 11)),
      (Some (Str ''/runs/ab12cd34/out/final_processed/b.png''), Some (Num 20))] \<and>
   serve_run_out happy_world ''/runs/ab12cd34/out/final_processed/b.png'' =
     Some ''/srv/app/runs/ab12cd34/out/final_processed/b.png'' \<and>
   map_sum id (map wr_path)
     (preprocess_and_save_all_stages rgb_file ''b.png'' (out_root happy_world) 2048) =
     Inr [''/srv/app/runs/ab12cd34/out/histogram_equalized/b.jpg'',
          ''/srv/app/runs/ab12cd34/out/gaussian_blur/b.jpg'',
          ''/srv/app/runs/ab12cd34/out/sharpened/b.jpg'',
          ''/srv/app/runs/ab12cd34/out/edges/b_edges.png'',
          ''/srv/app/runs/ab12cd34/out/median_filtered/b_median.png'',
          ''/srv/app/runs/ab12cd34/out/morphology/b_morph.png'',
          ''/srv/app/runs/ab12cd34/out/final_processed/b.jpg'']"
  by code_simp

end
